theory Spec2Isabelle
  imports Main "HOL-Library.Sublist" "HOL-Library.Multiset" "HOL-Library.Word"
begin

section \<open>Kalium incident tracker: data model\<close>

text \<open>
  The component \<^verbatim>\<open>KaliumIncidenciasApp.tsx\<close> keeps three pieces of state (incidents,
  content blocks, settings), changes them through a handful of functions that are pure
  in the previous collection (\<^verbatim>\<open>setIncidents((prev) => ...)\<close>), derives a filtered and
  sorted view, and mirrors the state into \<^verbatim>\<open>localStorage\<close>.

  What the environment supplies is an argument of the function that reads it: the clock
  (\<^verbatim>\<open>new Date().toISOString()\<close>) is \<open>now\<close>, the random suffix
  \<^verbatim>\<open>Math.random().toString(36).slice(2, 9)\<close> is \<open>rnd\<close>, the numeric value of a date string
  (\<^verbatim>\<open>+new Date(s)\<close>) is a function \<open>D\<close> whose result \<open>None\<close> stands for NaN, Unicode's
  lower-casing of a string (\<^verbatim>\<open>String.prototype.toLowerCase\<close>) is a function \<open>L\<close>, and the
  JSON codec is a pair \<open>stringify\<close>, \<open>parse\<close>.

  Field names follow the source; a suffix separates the \<^verbatim>\<open>id\<close>, \<^verbatim>\<open>title\<close>, \<^verbatim>\<open>type\<close>,
  \<^verbatim>\<open>size\<close> and \<^verbatim>\<open>updatedAt\<close> fields of the different object types (\<open>_i\<close> incident,
  \<open>_a\<close> attachment, \<open>_b\<close> content block), and the fields of patches, of the form's
  state and of the component's state carry the prefixes \<open>p_\<close>, \<open>b_\<close>, \<open>f_\<close> and \<open>s_\<close>.
\<close>

subsection \<open>Strings\<close>

text \<open>
  A JavaScript string is a sequence of 16-bit code units. The texts that users type and
  that the program trims, lower-cases and searches (the fields of an incident, the
  query, the vocabularies of the settings) are modelled so, as \<open>jstring\<close>; \<open>js\<close> writes
  an ASCII literal as such a text. Identifiers, timestamps, storage keys and the texts
  of content blocks, which the program only builds from ASCII, copies and compares,
  are \<^typ>\<open>string\<close>s.
\<close>

type_synonym code_unit = "16 word"

type_synonym jstring = "code_unit list"

definition js :: "string \<Rightarrow> jstring" where
  "js s = map of_char s"

subsection \<open>Records\<close>

datatype Status = Abierta | En_progreso | Resuelta | Cerrada

definition STATUS_OPTIONS :: "Status list" where
  "STATUS_OPTIONS = [Abierta, En_progreso, Resuelta, Cerrada]"

text \<open>The string each status is at run time (\<^verbatim>\<open>Status\<close> is a union of string literals).\<close>

fun status_str :: "Status \<Rightarrow> jstring" where
  "status_str Abierta = js ''Abierta''"
| "status_str En_progreso = js ''En progreso''"
| "status_str Resuelta = js ''Resuelta''"
| "status_str Cerrada = js ''Cerrada''"

record Attachment =
  id_a :: string
  name :: string
  type_a :: string
  size_a :: nat
  url :: string

record Reporter =
  email :: "jstring option"
  discord :: "jstring option"

text \<open>
  \<^verbatim>\<open>Incident\<close> is split along the two \<^verbatim>\<open>Omit<Incident, ...>\<close> types of the source:
  \<open>IncidentFields\<close> is what the form fills in, \<open>IncidentData\<close> adds \<^verbatim>\<open>status\<close>, and
  \<open>Incident\<close> adds \<^verbatim>\<open>id\<close>, \<^verbatim>\<open>createdAt\<close> and \<^verbatim>\<open>updatedAt\<close>.
\<close>

record IncidentFields =
  title :: jstring
  description :: jstring
  category :: jstring
  server :: jstring
  priority :: jstring
  reporter :: "Reporter option"
  attachments :: "Attachment list"

record IncidentData = IncidentFields +
  status :: Status

record Incident = IncidentData +
  id_i :: string
  createdAt :: string
  updatedAt :: string

text \<open>
  The argument of \<^verbatim>\<open>createIncident\<close> has the type
  \<^verbatim>\<open>Omit<Incident, "id" | "createdAt" | "updatedAt">\<close>. The type does not forbid the three
  properties it leaves out: TypeScript rejects them in an object literal only, and an
  object that has them is accepted wherever it comes from a variable or a spread.
  \<open>Excess\<close> holds such properties of an argument, \<open>None\<close> where it has none.
\<close>

record Excess =
  x_id :: "string option"
  x_createdAt :: "string option"
  x_updatedAt :: "string option"

definition no_excess :: Excess where
  "no_excess = \<lparr>x_id = None, x_createdAt = None, x_updatedAt = None\<rparr>"

record IncidentArg = IncidentData +
  excess :: Excess

text \<open>
  The payload of \<^verbatim>\<open>IncidentForm\<close>'s \<^verbatim>\<open>onSubmit\<close>:
  \<^verbatim>\<open>Omit<Incident, "id" | "createdAt" | "updatedAt" | "status"> & { status?: Status }\<close>,
  with the same allowance.
\<close>

record Payload = IncidentFields +
  status_opt :: "Status option"
  payload_excess :: Excess

text \<open>
  \<^verbatim>\<open>Partial<Incident>\<close>: every field may be absent (\<open>None\<close>). \<^verbatim>\<open>reporter\<close> is optional in
  \<^verbatim>\<open>Incident\<close> itself, so a patch can carry it with the value \<^verbatim>\<open>undefined\<close>
  (\<open>Some None\<close>).
\<close>

record IncidentPatch =
  p_id :: "string option"
  p_title :: "jstring option"
  p_description :: "jstring option"
  p_category :: "jstring option"
  p_server :: "jstring option"
  p_priority :: "jstring option"
  p_status :: "Status option"
  p_reporter :: "Reporter option option"
  p_attachments :: "Attachment list option"
  p_createdAt :: "string option"
  p_updatedAt :: "string option"

record ContentBlock =
  id_b :: string
  title_b :: string
  body :: string
  updatedAt_b :: string

text \<open>\<^verbatim>\<open>Partial<ContentBlock>\<close>.\<close>

record BlockPatch =
  b_id :: "string option"
  b_title :: "string option"
  b_body :: "string option"
  b_updatedAt :: "string option"

record Settings =
  categories :: "jstring list"
  servers :: "jstring list"
  priorities :: "jstring list"

definition LS_KEYS_incidents :: string where
  "LS_KEYS_incidents = ''kalium_incidents''"

definition LS_KEYS_contentBlocks :: string where
  "LS_KEYS_contentBlocks = ''kalium_content_blocks''"

definition LS_KEYS_settings :: string where
  "LS_KEYS_settings = ''kalium_settings''"

text \<open>The accented letters of the default settings are the code units 0xF3 and 0xED.\<close>

definition DEFAULT_SETTINGS :: Settings where
  "DEFAULT_SETTINGS =
     \<lparr>categories = [js ''General'', js ''Errores de conexi'' @ [0xF3] @ js ''n'',
                    js ''Econom'' @ [0xED] @ js ''a'', js ''Reportes de jugadores'',
                    js ''Sugerencias''],
      servers = [js ''Lobby'', js ''Survival'', js ''Skyblock'', js ''Minijuegos''],
      priorities = [js ''Baja'', js ''Media'', js ''Alta'', js ''Cr'' @ [0xED] @ js ''tica'']\<rparr>"

section \<open>Helpers\<close>

text \<open>
  \<^verbatim>\<open>uid(prefix)\<close> is \<^verbatim>\<open>`${prefix}_${Math.random().toString(36).slice(2, 9)}`\<close>; \<open>rnd\<close> is the
  sliced random string.
\<close>

definition uid :: "string \<Rightarrow> string \<Rightarrow> string" where
  "uid pfx rnd = pfx @ ''_'' @ rnd"

text \<open>\<^verbatim>\<open>a || b\<close> on an optional string: \<^verbatim>\<open>undefined\<close> and \<^verbatim>\<open>""\<close> are falsy.\<close>

fun or_else :: "string option \<Rightarrow> string \<Rightarrow> string" where
  "or_else None d = d"
| "or_else (Some s) d = (if s = [] then d else s)"

section \<open>CRUD on incidents\<close>

text \<open>
  \<^verbatim>\<open>const n = { id: uid("inc"), createdAt: now, updatedAt: now, ...data };\<close>
  \<^verbatim>\<open>setIncidents((prev) => [n, ...prev]);\<close>
  The spread comes last: an \<^verbatim>\<open>id\<close>, \<^verbatim>\<open>createdAt\<close> or \<^verbatim>\<open>updatedAt\<close> that \<^verbatim>\<open>data\<close> has of its
  own replaces the generated one. The function returns nothing; its effect is the new
  collection. (The toast it shows afterwards is not part of the state.)
\<close>

definition new_incident :: "string \<Rightarrow> string \<Rightarrow> IncidentArg \<Rightarrow> Incident" where
  "new_incident now rnd data =
     \<lparr>title = title data, description = description data, category = category data,
      server = server data, priority = priority data, reporter = reporter data,
      attachments = attachments data, status = status data,
      id_i = (case x_id (excess data) of None \<Rightarrow> uid ''inc'' rnd | Some v \<Rightarrow> v),
      createdAt = (case x_createdAt (excess data) of None \<Rightarrow> now | Some v \<Rightarrow> v),
      updatedAt = (case x_updatedAt (excess data) of None \<Rightarrow> now | Some v \<Rightarrow> v)\<rparr>"

definition createIncident :: "string \<Rightarrow> string \<Rightarrow> IncidentArg \<Rightarrow> Incident list \<Rightarrow> Incident list" where
  "createIncident now rnd data prev = (let n = new_incident now rnd data in n # prev)"

text \<open>The object spread \<^verbatim>\<open>{ ...it, ...patch, updatedAt: new Date().toISOString() }\<close>.\<close>

definition spread_patch :: "Incident \<Rightarrow> IncidentPatch \<Rightarrow> string \<Rightarrow> Incident" where
  "spread_patch it patch now =
     \<lparr>title = (case p_title patch of None \<Rightarrow> title it | Some v \<Rightarrow> v),
      description = (case p_description patch of None \<Rightarrow> description it | Some v \<Rightarrow> v),
      category = (case p_category patch of None \<Rightarrow> category it | Some v \<Rightarrow> v),
      server = (case p_server patch of None \<Rightarrow> server it | Some v \<Rightarrow> v),
      priority = (case p_priority patch of None \<Rightarrow> priority it | Some v \<Rightarrow> v),
      reporter = (case p_reporter patch of None \<Rightarrow> reporter it | Some v \<Rightarrow> v),
      attachments = (case p_attachments patch of None \<Rightarrow> attachments it | Some v \<Rightarrow> v),
      status = (case p_status patch of None \<Rightarrow> status it | Some v \<Rightarrow> v),
      id_i = (case p_id patch of None \<Rightarrow> id_i it | Some v \<Rightarrow> v),
      createdAt = (case p_createdAt patch of None \<Rightarrow> createdAt it | Some v \<Rightarrow> v),
      updatedAt = now\<rparr>"

text \<open>
  \<^verbatim>\<open>prev.map((it) => (it.id === id ? { ...it, ...patch, updatedAt: ... } : it))\<close>. The
  source reads the clock at each record that matches; the readings of one call are
  taken to be the same instant \<open>now\<close>.
\<close>

definition updateIncident :: "string \<Rightarrow> string \<Rightarrow> IncidentPatch \<Rightarrow> Incident list \<Rightarrow> Incident list" where
  "updateIncident now ident patch prev =
     map (\<lambda>it. if id_i it = ident then spread_patch it patch now else it) prev"

definition deleteIncident :: "string \<Rightarrow> Incident list \<Rightarrow> Incident list" where
  "deleteIncident ident prev = filter (\<lambda>i. id_i i \<noteq> ident) prev"

section \<open>CRUD on content blocks\<close>

definition spread_block :: "ContentBlock \<Rightarrow> BlockPatch \<Rightarrow> string \<Rightarrow> ContentBlock" where
  "spread_block x block now =
     \<lparr>id_b = (case b_id block of None \<Rightarrow> id_b x | Some v \<Rightarrow> v),
      title_b = (case b_title block of None \<Rightarrow> title_b x | Some v \<Rightarrow> v),
      body = (case b_body block of None \<Rightarrow> body x | Some v \<Rightarrow> v),
      updatedAt_b = now\<rparr>"

text \<open>\<^verbatim>\<open>block?.f\<close> for an optional patch.\<close>

definition opt_field :: "(BlockPatch \<Rightarrow> string option) \<Rightarrow> BlockPatch option \<Rightarrow> string option" where
  "opt_field f block = (case block of None \<Rightarrow> None | Some b \<Rightarrow> f b)"

text \<open>
  \<^verbatim>\<open>upsertBlock(block?)\<close>: \<^verbatim>\<open>!block?.id\<close> holds when the patch is missing, has no id or has
  the empty id; then a block is created, otherwise the block with that id is patched
  (in that branch the patch is present, and \<open>the block\<close> is that patch).
\<close>

definition upsertBlock :: "string \<Rightarrow> string \<Rightarrow> BlockPatch option \<Rightarrow> ContentBlock list \<Rightarrow> ContentBlock list" where
  "upsertBlock now rnd block p =
     (if or_else (opt_field b_id block) [] = [] then
        (let b = \<lparr>id_b = uid ''blk'' rnd,
                  title_b = or_else (opt_field b_title block) ''Nuevo bloque'',
                  body = or_else (opt_field b_body block) ''Escribe contenido en **Markdown**.'',
                  updatedAt_b = now\<rparr>
         in b # p)
      else
        map (\<lambda>x. if Some (id_b x) = opt_field b_id block
                  then spread_block x (the block) now else x) p)"

definition deleteBlock :: "string \<Rightarrow> ContentBlock list \<Rightarrow> ContentBlock list" where
  "deleteBlock ident p = filter (\<lambda>x. id_b x \<noteq> ident) p"

section \<open>Presentation-layer callers of \<^verbatim>\<open>createIncident\<close>\<close>

text \<open>
  The state of \<^verbatim>\<open>IncidentForm\<close> and its \<^verbatim>\<open>submit\<close> handler: nothing is submitted when the
  trimmed title or description is empty; otherwise the payload carries the trimmed
  texts, \<^verbatim>\<open>email.trim() || undefined\<close>, and \<^verbatim>\<open>status: "Abierta"\<close>.
\<close>

text \<open>
  \<^verbatim>\<open>String.prototype.trim\<close> removes white space and line terminators from both ends:
  the code units below are ECMA-262's \<^verbatim>\<open>WhiteSpace\<close> and \<^verbatim>\<open>LineTerminator\<close>.
\<close>

definition is_ws :: "code_unit \<Rightarrow> bool" where
  "is_ws c =
     (c \<in> set [0x0009, 0x000A, 0x000B, 0x000C, 0x000D, 0x0020, 0x00A0, 0x1680,
               0x2028, 0x2029, 0x202F, 0x205F, 0x3000, 0xFEFF]
      \<or> (0x2000 \<le> c \<and> c \<le> 0x200A))"

definition trim :: "jstring \<Rightarrow> jstring" where
  "trim s = rev (dropWhile is_ws (rev (dropWhile is_ws s)))"

record FormState =
  f_title :: jstring
  f_description :: jstring
  f_category :: jstring
  f_server :: jstring
  f_priority :: jstring
  f_email :: jstring
  f_discord :: jstring
  f_attachments :: "Attachment list"

definition nonempty_or_undefined :: "jstring \<Rightarrow> jstring option" where
  "nonempty_or_undefined s = (if s = [] then None else Some s)"

text \<open>The payload is an object literal: it has the properties written there and no other.\<close>

definition submit :: "FormState \<Rightarrow> Payload option" where
  "submit f =
     (if trim (f_title f) = [] \<or> trim (f_description f) = [] then None
      else Some
        \<lparr>title = trim (f_title f), description = trim (f_description f),
         category = f_category f, server = f_server f, priority = f_priority f,
         reporter = Some \<lparr>email = nonempty_or_undefined (trim (f_email f)),
                          discord = nonempty_or_undefined (trim (f_discord f))\<rparr>,
         attachments = f_attachments f,
         status_opt = Some Abierta,
         payload_excess = no_excess\<rparr>)"

text \<open>
  The portal's handler: \<^verbatim>\<open>onSubmit={(payload) => createIncident({ ...payload, status: "Abierta" })}\<close>.
\<close>

definition with_status_Abierta :: "Payload \<Rightarrow> IncidentArg" where
  "with_status_Abierta payload =
     \<lparr>title = title payload, description = description payload, category = category payload,
      server = server payload, priority = priority payload, reporter = reporter payload,
      attachments = attachments payload, status = Abierta,
      excess = payload_excess payload\<rparr>"

definition onSubmit :: "string \<Rightarrow> string \<Rightarrow> Payload \<Rightarrow> Incident list \<Rightarrow> Incident list" where
  "onSubmit now rnd payload prev = createIncident now rnd (with_status_Abierta payload) prev"

section \<open>The derived view \<^verbatim>\<open>filtered\<close>\<close>

text \<open>\<^verbatim>\<open>s.includes(q)\<close>: \<open>q\<close> occurs in \<open>s\<close> as a run of consecutive code units.\<close>

fun str_includes :: "jstring \<Rightarrow> jstring \<Rightarrow> bool" where
  "str_includes [] q = (q = [])"
| "str_includes (c # cs) q = (prefix q (c # cs) \<or> str_includes cs q)"

text \<open>
  The values the text filter looks at, in the order of the source:
  \<^verbatim>\<open>[i.title, i.description, i.category, i.server, i.priority, i.status,
   i.reporter?.discord, i.reporter?.email]\<close>; \<open>None\<close> is \<^verbatim>\<open>undefined\<close>.
\<close>

definition search_fields :: "Incident \<Rightarrow> jstring option list" where
  "search_fields i =
     [Some (title i), Some (description i), Some (category i), Some (server i),
      Some (priority i), Some (status_str (status i)),
      (case reporter i of None \<Rightarrow> None | Some r \<Rightarrow> discord r),
      (case reporter i of None \<Rightarrow> None | Some r \<Rightarrow> email r)]"

text \<open>\<^verbatim>\<open>Boolean(v)\<close> and \<^verbatim>\<open>String(v)\<close> on such a value.\<close>

fun Boolean :: "jstring option \<Rightarrow> bool" where
  "Boolean None = False"
| "Boolean (Some s) = (s \<noteq> [])"

fun String :: "jstring option \<Rightarrow> jstring" where
  "String None = js ''undefined''"
| "String (Some s) = s"

text \<open>
  \<^verbatim>\<open>[...].filter(Boolean).some((v) => String(v).toLowerCase().includes(q))\<close>, with \<open>L\<close>
  for \<^verbatim>\<open>toLowerCase\<close>. Unicode's lower-casing is not a map over code units: it depends on
  the letters around a capital sigma and can change the length of a string, so it is
  left to the platform.
\<close>

definition text_match :: "(jstring \<Rightarrow> jstring) \<Rightarrow> jstring \<Rightarrow> Incident \<Rightarrow> bool" where
  "text_match L q i =
     list_ex (\<lambda>v. str_includes (L (String v)) q) (filter Boolean (search_fields i))"

text \<open>\<^verbatim>\<open>statusFilter: Status | "Todos"\<close> and \<^verbatim>\<open>sortBy: "fecha" | "prioridad"\<close>.\<close>

datatype StatusFilter = Todos | Only Status

datatype SortBy = fecha | prioridad

text \<open>
  The three filters of \<^verbatim>\<open>filtered\<close>, applied to a copy of the collection. The priority
  filter is a plain string whose value \<^verbatim>\<open>"Todas"\<close> switches it off.
\<close>

definition filter_stage ::
  "(jstring \<Rightarrow> jstring) \<Rightarrow> Incident list \<Rightarrow> jstring \<Rightarrow> StatusFilter \<Rightarrow> jstring \<Rightarrow> Incident list" where
  "filter_stage L incidents query statusFilter priorityFilter =
     (let list1 = (if trim query \<noteq> []
                   then (let q = L query in filter (text_match L q) incidents)
                   else incidents);
          list2 = (case statusFilter of
                     Todos \<Rightarrow> list1
                   | Only s \<Rightarrow> filter (\<lambda>i. status i = s) list1);
          list3 = (if priorityFilter \<noteq> js ''Todas''
                   then filter (\<lambda>i. priority i = priorityFilter) list2
                   else list2)
      in list3)"

text \<open>
  \<^verbatim>\<open>Array.prototype.indexOf\<close>: the position of the first equal element, or \<open>-1\<close>.
\<close>

fun indexOf_from :: "nat \<Rightarrow> jstring list \<Rightarrow> jstring \<Rightarrow> int" where
  "indexOf_from k [] p = - 1"
| "indexOf_from k (x # xs) p = (if x = p then int k else indexOf_from (Suc k) xs p)"

definition indexOf :: "jstring list \<Rightarrow> jstring \<Rightarrow> int" where
  "indexOf xs p = indexOf_from 0 xs p"

text \<open>\<^verbatim>\<open>const rank = (p: string) => settings.priorities.indexOf(p);\<close>\<close>

definition rank :: "jstring list \<Rightarrow> jstring \<Rightarrow> int" where
  "rank prios p = indexOf prios p"

text \<open>
  The two comparison functions. \<^verbatim>\<open>+new Date(b.createdAt) - +new Date(a.createdAt)\<close> is
  NaN (\<open>None\<close>) when either string is not a date.
\<close>

definition cmp_fecha :: "(string \<Rightarrow> int option) \<Rightarrow> Incident \<Rightarrow> Incident \<Rightarrow> int option" where
  "cmp_fecha D a b =
     (case D (createdAt b) of
        None \<Rightarrow> None
      | Some tb \<Rightarrow> (case D (createdAt a) of None \<Rightarrow> None | Some ta \<Rightarrow> Some (tb - ta)))"

definition cmp_prioridad :: "jstring list \<Rightarrow> Incident \<Rightarrow> Incident \<Rightarrow> int option" where
  "cmp_prioridad prios a b = Some (rank prios (priority b) - rank prios (priority a))"

subsection \<open>\<^verbatim>\<open>Array.prototype.sort\<close>\<close>

text \<open>
  ECMA-262 asks of \<^verbatim>\<open>Array.prototype.sort\<close> a stable sort, and fixes its result only for
  a comparison function that is a consistent ordering of the elements; with any other
  one, such as a function that answers NaN, the order is the engine's choice. The
  engine reads a NaN answer as \<open>0\<close> (\<^verbatim>\<open>SortCompare\<close>).

  The algorithm below is V8's (Chrome, Edge, Node), as its \<^verbatim>\<open>array-sort.tq\<close> has it for
  an array of fewer than 64 elements: \<^verbatim>\<open>CountAndMakeRun\<close> finds the run the array starts
  with (non-descending, or strictly descending and then reversed in place), and
  \<^verbatim>\<open>BinaryInsertionSort\<close> inserts each later element into the sorted front at the place
  a binary search gives. On a longer array V8 cuts the array into such runs and merges
  them; for a consistent comparison function that gives the same array as here, as
  does every stable sort of every engine.
\<close>

definition SortCompare :: "('a \<Rightarrow> 'a \<Rightarrow> int option) \<Rightarrow> 'a \<Rightarrow> 'a \<Rightarrow> int" where
  "SortCompare comparefn x y = (case comparefn x y of None \<Rightarrow> 0 | Some v \<Rightarrow> v)"

text \<open>
  The run goes on from \<open>prev\<close> through \<open>xs\<close> while the order found at its start holds;
  \<open>run_tail\<close> counts the elements of \<open>xs\<close> that belong to it.
\<close>

fun run_tail :: "('a \<Rightarrow> 'a \<Rightarrow> int) \<Rightarrow> bool \<Rightarrow> 'a \<Rightarrow> 'a list \<Rightarrow> nat" where
  "run_tail c desc prev [] = 0"
| "run_tail c desc prev (x # xs) =
     (let order = c x prev
      in if (if desc then order \<ge> 0 else order < 0) then 0
         else Suc (run_tail c desc x xs))"

text \<open>The length of the first run, and the array with that run in ascending order.\<close>

fun CountAndMakeRun :: "('a \<Rightarrow> 'a \<Rightarrow> int) \<Rightarrow> 'a list \<Rightarrow> nat \<times> 'a list" where
  "CountAndMakeRun c (x0 # x1 # rest) =
     (let desc = (c x1 x0 < 0);
          n = 2 + run_tail c desc x1 rest
      in (n, if desc then rev (take n (x0 # x1 # rest)) @ drop n (x0 # x1 # rest)
             else x0 # x1 # rest))"
| "CountAndMakeRun c a = (length a, a)"

text \<open>
  The binary search of \<^verbatim>\<open>BinaryInsertionSort\<close> for the place of \<open>pivot\<close> in \<open>a\<close> between
  \<open>left\<close> and \<open>right\<close>.
\<close>

function bsearch :: "('a \<Rightarrow> 'a \<Rightarrow> int) \<Rightarrow> 'a \<Rightarrow> 'a list \<Rightarrow> nat \<Rightarrow> nat \<Rightarrow> nat" where
  "bsearch c pivot a left right =
     (if left < right then
        (let mid = left + (right - left) div 2
         in if c pivot (a ! mid) < 0 then bsearch c pivot a left mid
            else bsearch c pivot a (mid + 1) right)
      else left)"
  by pat_completeness auto
termination
  by (relation "measure (\<lambda>(c, pivot, a, left, right). right - left)") auto

declare bsearch.simps [simp del]

text \<open>\<open>pre\<close> is the sorted front of the array, the second list what is still to insert.\<close>

fun BinaryInsertionSort :: "('a \<Rightarrow> 'a \<Rightarrow> int) \<Rightarrow> 'a list \<Rightarrow> 'a list \<Rightarrow> 'a list" where
  "BinaryInsertionSort c pre [] = pre"
| "BinaryInsertionSort c pre (pivot # rest) =
     (let left = bsearch c pivot pre 0 (length pre)
      in BinaryInsertionSort c (take left pre @ pivot # drop left pre) rest)"

definition ArrayTimSortImpl :: "('a \<Rightarrow> 'a \<Rightarrow> int) \<Rightarrow> 'a list \<Rightarrow> 'a list" where
  "ArrayTimSortImpl c a =
     (if length a < 2 then a
      else (let (n, b) = CountAndMakeRun c a
            in BinaryInsertionSort c (take n b) (drop n b)))"

definition array_sort :: "('a \<Rightarrow> 'a \<Rightarrow> int option) \<Rightarrow> 'a list \<Rightarrow> 'a list" where
  "array_sort comparefn a = ArrayTimSortImpl (SortCompare comparefn) a"

subsection \<open>The view\<close>

definition sort_stage :: "(string \<Rightarrow> int option) \<Rightarrow> SortBy \<Rightarrow> jstring list \<Rightarrow> Incident list \<Rightarrow> Incident list" where
  "sort_stage D sortBy prios list =
     (if sortBy = fecha then array_sort (cmp_fecha D) list
      else array_sort (cmp_prioridad prios) list)"

definition filtered ::
  "(jstring \<Rightarrow> jstring) \<Rightarrow> (string \<Rightarrow> int option) \<Rightarrow> Incident list \<Rightarrow> jstring \<Rightarrow> StatusFilter \<Rightarrow> jstring
     \<Rightarrow> SortBy \<Rightarrow> jstring list \<Rightarrow> Incident list" where
  "filtered L D incidents query statusFilter priorityFilter sortBy prios =
     sort_stage D sortBy prios (filter_stage L incidents query statusFilter priorityFilter)"

section \<open>Persistence in \<^verbatim>\<open>localStorage\<close>\<close>

text \<open>
  \<^verbatim>\<open>localStorage\<close> maps keys to strings; \<^verbatim>\<open>getItem\<close> answers \<^verbatim>\<open>null\<close> (\<open>None\<close>) for a
  key that was never written. The browser can refuse the storage altogether (every
  access throws a \<^verbatim>\<open>SecurityError\<close>) or refuse an entry it has no room for (\<^verbatim>\<open>setItem\<close>
  throws a \<^verbatim>\<open>QuotaExceededError\<close>); when and for what it does so is the browser's
  matter, recorded in the fields \<open>available\<close> and \<open>room\<close>.

  \<^verbatim>\<open>JSON.stringify\<close> and \<^verbatim>\<open>JSON.parse\<close> belong to the platform and are arguments;
  \<^verbatim>\<open>JSON.parse\<close> throws a \<^verbatim>\<open>SyntaxError\<close> on text that is not JSON, and its result is used
  at the expected type without a check (\<^verbatim>\<open>JSON.parse(raw) as T\<close>).
\<close>

datatype error = SyntaxError | SecurityError | QuotaExceededError

record Storage =
  items :: "string \<Rightarrow> string option"
  available :: bool
  room :: "string \<Rightarrow> string \<Rightarrow> bool"

definition setItem :: "Storage \<Rightarrow> string \<Rightarrow> string \<Rightarrow> error + Storage" where
  "setItem ls key text =
     (if \<not> available ls then Inl SecurityError
      else if \<not> room ls key text then Inl QuotaExceededError
      else Inr (ls\<lparr>items := (items ls)(key \<mapsto> text)\<rparr>))"

definition getItem :: "Storage \<Rightarrow> string \<Rightarrow> error + string option" where
  "getItem ls key = (if \<not> available ls then Inl SecurityError else Inr (items ls key))"

text \<open>
  \<^verbatim>\<open>saveLS\<close> has no \<^verbatim>\<open>try\<close>: what \<^verbatim>\<open>setItem\<close> throws reaches the caller.
\<close>

definition saveLS :: "('v \<Rightarrow> string) \<Rightarrow> Storage \<Rightarrow> string \<Rightarrow> 'v \<Rightarrow> error + Storage" where
  "saveLS stringify ls key v = setItem ls key (stringify v)"

text \<open>
  The body of the \<^verbatim>\<open>try\<close> block of \<^verbatim>\<open>loadLS\<close>, which may throw:
  \<^verbatim>\<open>const raw = localStorage.getItem(key); return raw ? JSON.parse(raw) : fallback;\<close>
  (\<^verbatim>\<open>null\<close> and \<^verbatim>\<open>""\<close> are falsy), and \<^verbatim>\<open>loadLS\<close> itself, whose \<^verbatim>\<open>catch\<close> answers the
  fallback.
\<close>

definition loadLS_try :: "(string \<Rightarrow> error + 'v) \<Rightarrow> Storage \<Rightarrow> string \<Rightarrow> 'v \<Rightarrow> error + 'v" where
  "loadLS_try parse ls key fallback =
     (case getItem ls key of
        Inl e \<Rightarrow> Inl e
      | Inr None \<Rightarrow> Inr fallback
      | Inr (Some raw) \<Rightarrow> (if raw \<noteq> [] then parse raw else Inr fallback))"

definition loadLS :: "(string \<Rightarrow> error + 'v) \<Rightarrow> Storage \<Rightarrow> string \<Rightarrow> 'v \<Rightarrow> 'v" where
  "loadLS parse ls key fallback =
     (case loadLS_try parse ls key fallback of Inl e \<Rightarrow> fallback | Inr v \<Rightarrow> v)"

text \<open>
  The three \<^verbatim>\<open>useState(() => loadLS(...))\<close> initialisers of the component, each with the
  parser at its own type; the record groups the three state variables \<^verbatim>\<open>incidents\<close>,
  \<^verbatim>\<open>contentBlocks\<close> and \<^verbatim>\<open>settings\<close>.
\<close>

record Store =
  s_incidents :: "Incident list"
  s_contentBlocks :: "ContentBlock list"
  s_settings :: Settings

definition init_Store ::
  "(string \<Rightarrow> error + Incident list) \<Rightarrow> (string \<Rightarrow> error + ContentBlock list) \<Rightarrow>
   (string \<Rightarrow> error + Settings) \<Rightarrow> Storage \<Rightarrow> Store" where
  "init_Store parse_i parse_b parse_s ls =
     \<lparr>s_incidents = loadLS parse_i ls LS_KEYS_incidents [],
      s_contentBlocks = loadLS parse_b ls LS_KEYS_contentBlocks [],
      s_settings = loadLS parse_s ls LS_KEYS_settings DEFAULT_SETTINGS\<rparr>"

section \<open>Example data\<close>

text \<open>
  The three incidents of the specification's sorting scenario: A created at 1 ms with
  priority Alta, B at 2 ms with Baja, C at 3 ms with the priority written with an
  accented i; and the values of \<^verbatim>\<open>+new Date(s)\<close> on their \<^verbatim>\<open>createdAt\<close> strings.
\<close>

definition inc_A :: Incident where
  "inc_A =
     \<lparr>title = js ''Lag en Survival'', description = js ''El servidor va lento'',
      category = js ''General'', server = js ''Survival'', priority = js ''Alta'',
      reporter = None, attachments = [], status = Abierta,
      id_i = ''inc_a1b2c3d'', createdAt = ''1970-01-01T00:00:00.001Z'',
      updatedAt = ''1970-01-01T00:00:00.001Z''\<rparr>"

definition inc_B :: Incident where
  "inc_B =
     \<lparr>title = js ''Tienda'', description = js ''Precio incorrecto'',
      category = js ''General'', server = js ''Lobby'', priority = js ''Baja'',
      reporter = Some \<lparr>email = Some (js ''ana@kalium.net''), discord = None\<rparr>,
      attachments = [], status = En_progreso,
      id_i = ''inc_e4f5g6h'', createdAt = ''1970-01-01T00:00:00.002Z'',
      updatedAt = ''1970-01-01T00:00:00.002Z''\<rparr>"

definition inc_C :: Incident where
  "inc_C =
     \<lparr>title = js ''Dupe'', description = js ''Duplicados'',
      category = js ''General'', server = js ''Skyblock'',
      priority = js ''Cr'' @ [0xED] @ js ''tica'',
      reporter = None, attachments = [], status = Abierta,
      id_i = ''inc_i7j8k9l'', createdAt = ''1970-01-01T00:00:00.003Z'',
      updatedAt = ''1970-01-01T00:00:00.003Z''\<rparr>"

definition example_Date :: "string \<Rightarrow> int option" where
  "example_Date =
     map_of [(''1970-01-01T00:00:00.001Z'', 1), (''1970-01-01T00:00:00.002Z'', 2),
             (''1970-01-01T00:00:00.003Z'', 3)]"

text \<open>
  \<^verbatim>\<open>toLowerCase\<close> on the texts of the examples. On a text of ASCII and Latin-1 letters it
  moves the capitals (A to Z, and 0xC0 to 0xDE without the multiplication sign 0xD7) up
  by 0x20. A capital sigma (0x3A3) becomes the small sigma 0x3C3, except at the end of
  a word, where Unicode's \<^verbatim>\<open>Final_Sigma\<close> rule makes it the final sigma 0x3C2: that is its
  place in the one query below that has it.
\<close>

definition lower_unit :: "code_unit \<Rightarrow> code_unit" where
  "lower_unit c =
     (if (0x41 \<le> c \<and> c \<le> 0x5A) \<or> (0xC0 \<le> c \<and> c \<le> 0xDE \<and> c \<noteq> 0xD7) then c + 0x20
      else if c = 0x3A3 then 0x3C3
      else c)"

definition sigma_query :: jstring where
  "sigma_query = [0x41, 0x3A3]"

definition example_toLowerCase :: "jstring \<Rightarrow> jstring" where
  "example_toLowerCase s = (if s = sigma_query then [0x61, 0x3C2] else map lower_unit s)"


text \<open>
  Arguments for \<^verbatim>\<open>createIncident\<close>: one that carries a status other than \<^verbatim>\<open>"Abierta"\<close>, and
  one that has an \<^verbatim>\<open>id\<close> and a \<^verbatim>\<open>createdAt\<close> of its own, those of the incident A.
\<close>

definition data_cerrada :: IncidentArg where
  "data_cerrada =
     \<lparr>title = js ''Lag en Survival'', description = js ''El servidor va lento'',
      category = js ''General'', server = js ''Survival'', priority = js ''Alta'',
      reporter = None, attachments = [], status = Cerrada, excess = no_excess\<rparr>"

definition data_copied :: IncidentArg where
  "data_copied =
     \<lparr>title = js ''Lag en Survival'', description = js ''El servidor va lento'',
      category = js ''General'', server = js ''Survival'', priority = js ''Alta'',
      reporter = None, attachments = [], status = Abierta,
      excess = \<lparr>x_id = Some ''inc_a1b2c3d'', x_createdAt = Some ''1970-01-01T00:00:00.001Z'',
                x_updatedAt = None\<rparr>\<rparr>"

text \<open>A filled-in form.\<close>

definition form_lag :: FormState where
  "form_lag =
     \<lparr>f_title = js '' Lag en Survival'', f_description = js ''El servidor va lento '',
      f_category = js ''General'', f_server = js ''Survival'', f_priority = js ''Media'',
      f_email = [], f_discord = js ''ana#0001'', f_attachments = []\<rparr>"

text \<open>
  Patches: the empty one, \<^verbatim>\<open>{ status }\<close> as the status menu builds it, and two that
  carry \<^verbatim>\<open>id\<close> or \<^verbatim>\<open>createdAt\<close>.
\<close>

definition patch_empty :: IncidentPatch where
  "patch_empty =
     \<lparr>p_id = None, p_title = None, p_description = None, p_category = None,
      p_server = None, p_priority = None, p_status = None, p_reporter = None,
      p_attachments = None, p_createdAt = None, p_updatedAt = None\<rparr>"

definition patch_status :: "Status \<Rightarrow> IncidentPatch" where
  "patch_status s = patch_empty\<lparr>p_status := Some s\<rparr>"

definition patch_id :: "string \<Rightarrow> IncidentPatch" where
  "patch_id s = patch_empty\<lparr>p_id := Some s\<rparr>"

definition patch_createdAt :: "string \<Rightarrow> IncidentPatch" where
  "patch_createdAt s = patch_empty\<lparr>p_createdAt := Some s\<rparr>"

text \<open>The patch \<^verbatim>\<open>{}\<close> that the content manager's \<^verbatim>\<open>onCreate\<close> passes to \<^verbatim>\<open>upsertBlock\<close>.\<close>

definition block_empty :: BlockPatch where
  "block_empty = \<lparr>b_id = None, b_title = None, b_body = None, b_updatedAt = None\<rparr>"

text \<open>
  B after \<^verbatim>\<open>updateIncident\<close> with a patch whose \<^verbatim>\<open>createdAt\<close> is not a date (\<open>example_Date\<close>
  has no value for it).
\<close>

definition inc_undated :: Incident where
  "inc_undated = inc_B\<lparr>createdAt := ''ayer'', updatedAt := ''2024-05-01T10:00:00.000Z''\<rparr>"

text \<open>An incident whose priority label is not in the default vocabulary.\<close>

definition inc_X :: Incident where
  "inc_X =
     \<lparr>title = js ''Whitelist'', description = js ''No puedo entrar'',
      category = js ''General'', server = js ''Lobby'', priority = js ''Urgente'',
      reporter = Some \<lparr>email = None, discord = Some (js ''Ana#0001'')\<rparr>,
      attachments = [], status = Abierta,
      id_i = ''inc_m1n2o3p'', createdAt = ''1970-01-01T00:00:00.002Z'',
      updatedAt = ''1970-01-01T00:00:00.002Z''\<rparr>"

text \<open>
  Stand-ins for the platform's \<^verbatim>\<open>JSON.parse\<close> that agree with it at the points the
  examples below use: the text \<^verbatim>\<open>[]\<close> parses to the empty array, and a text cut off
  after an opening brace is rejected.
\<close>

definition example_parse :: "string \<Rightarrow> error + 'a list" where
  "example_parse raw = (if raw = ''[]'' then Inr [] else Inl SyntaxError)"

definition example_parse_settings :: "string \<Rightarrow> error + Settings" where
  "example_parse_settings raw = Inl SyntaxError"

definition example_storage :: Storage where
  "example_storage =
     \<lparr>items = [LS_KEYS_incidents \<mapsto> ''[{'', LS_KEYS_contentBlocks \<mapsto> ''[]''],
      available = True, room = (\<lambda>key text. True)\<rparr>"

text \<open>The storage of a browser that refuses access.\<close>

definition blocked_storage :: Storage where
  "blocked_storage = example_storage\<lparr>available := False\<rparr>"

section \<open>Creating incidents\<close>

text \<open>
  Claim C1, as the specification states it, has every record made by \<^verbatim>\<open>createIncident\<close>
  start with the status \<^verbatim>\<open>"Abierta"\<close>, with \<^verbatim>\<open>createdAt\<close> equal to \<^verbatim>\<open>updatedAt\<close> and with a
  freshly generated id. The function copies the status of its argument: called with
  data whose status is \<^verbatim>\<open>"Cerrada"\<close>, it creates a closed incident. It lets the argument's
  own \<^verbatim>\<open>id\<close> and \<^verbatim>\<open>createdAt\<close> replace the generated ones: called with data that has those
  of the incident A, it creates a second record with A's id whose \<^verbatim>\<open>createdAt\<close> is not its
  \<^verbatim>\<open>updatedAt\<close>. And it does not compare the id it generates with those in the collection:
  when the random suffix is the one A's id was made of, the new record has A's id.
\<close>

theorem createIncident_status_counterexample:
  "map status (createIncident ''2024-05-01T10:00:00.000Z'' ''k3j9x1a'' data_cerrada []) = [Cerrada]
   \<and> Cerrada \<noteq> Abierta
   \<and> map id_i (createIncident ''2024-05-01T10:00:00.000Z'' ''k3j9x1a'' data_copied [inc_A])
       = [''inc_a1b2c3d'', ''inc_a1b2c3d'']
   \<and> map createdAt (createIncident ''2024-05-01T10:00:00.000Z'' ''k3j9x1a'' data_copied [])
       = [''1970-01-01T00:00:00.001Z'']
   \<and> map updatedAt (createIncident ''2024-05-01T10:00:00.000Z'' ''k3j9x1a'' data_copied [])
       = [''2024-05-01T10:00:00.000Z'']
   \<and> ''1970-01-01T00:00:00.001Z'' \<noteq> ''2024-05-01T10:00:00.000Z''
   \<and> map id_i (createIncident ''2024-05-01T10:00:00.000Z'' ''a1b2c3d'' data_cerrada [inc_A])
       = [''inc_a1b2c3d'', ''inc_a1b2c3d'']"
  by (simp add: createIncident_def new_incident_def data_cerrada_def data_copied_def
        no_excess_def inc_A_def uid_def)

text \<open>
  Claim C1, amended: every call of \<^verbatim>\<open>createIncident\<close> puts one new record in front of the
  collection and leaves the previous records behind it in their order. When the
  argument has no \<^verbatim>\<open>id\<close>, \<^verbatim>\<open>createdAt\<close> or \<^verbatim>\<open>updatedAt\<close> of its own, the new record has the
  status of the argument, \<^verbatim>\<open>createdAt\<close> and \<^verbatim>\<open>updatedAt\<close> both equal to the current time,
  and the id generated for this call, \<^verbatim>\<open>inc_\<close> followed by the random suffix; that id is
  new to a collection of distinct ids when no record there has it already. Through the
  form's \<^verbatim>\<open>submit\<close> and the portal's handler, which is how the program calls it, the
  argument has no such properties and the status is \<^verbatim>\<open>"Abierta"\<close>.
\<close>

theorem createIncident_prepends_new_record:
  "(\<exists>n. createIncident now rnd data prev = n # prev)
   \<and> (excess data = no_excess \<longrightarrow>
        (\<exists>n. createIncident now rnd data prev = n # prev
           \<and> status n = status data
           \<and> createdAt n = now \<and> updatedAt n = now
           \<and> id_i n = uid ''inc'' rnd))
   \<and> (excess data = no_excess \<and> distinct (map id_i prev) \<and> uid ''inc'' rnd \<notin> id_i ` set prev \<longrightarrow>
        distinct (map id_i (createIncident now rnd data prev)))
   \<and> (\<forall>payload. submit f = Some payload \<longrightarrow>
        (\<exists>n. onSubmit now rnd payload prev = n # prev
           \<and> status n = Abierta
           \<and> createdAt n = now \<and> updatedAt n = now
           \<and> id_i n = uid ''inc'' rnd))"
proof -
  have a: "\<exists>n. createIncident now rnd data prev = n # prev"
    by (simp add: createIncident_def)
  have b: "\<exists>n. createIncident now rnd data prev = n # prev
      \<and> status n = status data \<and> createdAt n = now \<and> updatedAt n = now
      \<and> id_i n = uid ''inc'' rnd"
    if "excess data = no_excess"
    using that by (simp add: createIncident_def new_incident_def no_excess_def)
  have c: "distinct (map id_i (createIncident now rnd data prev))"
    if "excess data = no_excess \<and> distinct (map id_i prev) \<and> uid ''inc'' rnd \<notin> id_i ` set prev"
    using that by (simp add: createIncident_def new_incident_def no_excess_def)
  have d: "\<exists>n. onSubmit now rnd payload prev = n # prev
      \<and> status n = Abierta \<and> createdAt n = now \<and> updatedAt n = now
      \<and> id_i n = uid ''inc'' rnd"
    if "submit f = Some payload" for payload
  proof -
    from that have "payload_excess payload = no_excess"
      by (auto simp: submit_def split: if_splits)
    then show ?thesis
      by (simp add: onSubmit_def createIncident_def new_incident_def with_status_Abierta_def
            no_excess_def)
  qed
  from a b c d show ?thesis
    by blast
qed

theorem createIncident_prepends_new_record_witness:
  "excess data_cerrada = no_excess
   \<and> distinct (map id_i [inc_A, inc_B])
   \<and> uid ''inc'' ''k3j9x1a'' \<notin> id_i ` set [inc_A, inc_B]
   \<and> (\<exists>n. createIncident ''2024-05-01T10:00:00.000Z'' ''k3j9x1a'' data_cerrada [inc_A, inc_B]
            = [n, inc_A, inc_B]
         \<and> status n = Cerrada
         \<and> createdAt n = ''2024-05-01T10:00:00.000Z''
         \<and> updatedAt n = ''2024-05-01T10:00:00.000Z''
         \<and> id_i n = ''inc_k3j9x1a'')
   \<and> distinct (map id_i (createIncident ''2024-05-01T10:00:00.000Z'' ''k3j9x1a'' data_cerrada
        [inc_A, inc_B]))
   \<and> (\<exists>payload. submit form_lag = Some payload
         \<and> (\<exists>n. onSubmit ''2024-05-01T10:00:00.000Z'' ''k3j9x1a'' payload [inc_A, inc_B]
                  = [n, inc_A, inc_B]
               \<and> status n = Abierta
               \<and> createdAt n = ''2024-05-01T10:00:00.000Z''
               \<and> updatedAt n = ''2024-05-01T10:00:00.000Z''
               \<and> id_i n = ''inc_k3j9x1a''))"
proof -
  have h1: "excess data_cerrada = no_excess"
    by (simp add: data_cerrada_def)
  have h2: "distinct (map id_i [inc_A, inc_B])"
    by (simp add: inc_A_def inc_B_def)
  have h3: "uid ''inc'' ''k3j9x1a'' \<notin> id_i ` set [inc_A, inc_B]"
    by (simp add: inc_A_def inc_B_def uid_def)
  have u: "uid ''inc'' ''k3j9x1a'' = ''inc_k3j9x1a''"
    by (simp add: uid_def)
  have s: "status data_cerrada = Cerrada"
    by (simp add: data_cerrada_def)
  have "submit form_lag \<noteq> None"
    by code_simp
  then obtain payload where p: "submit form_lag = Some payload"
    by blast
  note t = createIncident_prepends_new_record
    [of "''2024-05-01T10:00:00.000Z''" "''k3j9x1a''" data_cerrada "[inc_A, inc_B]" form_lag]
  from t h1 s u have c1: "\<exists>n. createIncident ''2024-05-01T10:00:00.000Z'' ''k3j9x1a'' data_cerrada
        [inc_A, inc_B] = [n, inc_A, inc_B]
      \<and> status n = Cerrada
      \<and> createdAt n = ''2024-05-01T10:00:00.000Z''
      \<and> updatedAt n = ''2024-05-01T10:00:00.000Z''
      \<and> id_i n = ''inc_k3j9x1a''"
    by auto
  from t h1 h2 h3 have c2: "distinct (map id_i (createIncident ''2024-05-01T10:00:00.000Z''
      ''k3j9x1a'' data_cerrada [inc_A, inc_B]))"
    by blast
  from t p u have c3: "\<exists>n. onSubmit ''2024-05-01T10:00:00.000Z'' ''k3j9x1a'' payload [inc_A, inc_B]
        = [n, inc_A, inc_B]
      \<and> status n = Abierta
      \<and> createdAt n = ''2024-05-01T10:00:00.000Z''
      \<and> updatedAt n = ''2024-05-01T10:00:00.000Z''
      \<and> id_i n = ''inc_k3j9x1a''"
    by auto
  from h1 h2 h3 c1 c2 p c3 show ?thesis
    by blast
qed

text \<open>
  Claim C10: \<^verbatim>\<open>createIncident\<close> does not set the status. The record it creates has the
  status of its argument, so an argument with a status other than \<^verbatim>\<open>"Abierta"\<close> gives a
  record with that status; the value \<^verbatim>\<open>"Abierta"\<close> comes from the callers, the form's
  \<^verbatim>\<open>submit\<close> and the portal's \<^verbatim>\<open>onSubmit\<close> handler.
\<close>

theorem createIncident_status_from_data:
  "map status (createIncident now rnd data prev) = status data # map status prev
   \<and> (status data \<noteq> Abierta \<longrightarrow>
        map status (createIncident now rnd data prev) \<noteq> Abierta # map status prev)
   \<and> (\<forall>payload. submit f = Some payload \<longrightarrow> status_opt payload = Some Abierta)
   \<and> map status (onSubmit now rnd p prev) = Abierta # map status prev"
  by (auto simp: onSubmit_def createIncident_def new_incident_def with_status_Abierta_def
        submit_def split: if_splits)

theorem createIncident_status_from_data_witness:
  "status data_cerrada \<noteq> Abierta
   \<and> map status (createIncident ''2024-05-01T10:00:00.000Z'' ''k3j9x1a'' data_cerrada [inc_A])
       \<noteq> [Abierta, Abierta]
   \<and> (\<exists>payload. submit form_lag = Some payload \<and> title payload = js ''Lag en Survival''
         \<and> status_opt payload = Some Abierta)"
proof -
  have h: "status data_cerrada \<noteq> Abierta"
    by (simp add: data_cerrada_def)
  have "map_option title (submit form_lag) = Some (js ''Lag en Survival'')"
    by code_simp
  then obtain payload where s: "submit form_lag = Some payload"
    and t: "title payload = js ''Lag en Survival''"
    by auto
  show ?thesis
    using h s t
      createIncident_status_from_data
        [of "''2024-05-01T10:00:00.000Z''" "''k3j9x1a''" data_cerrada "[inc_A]" form_lag]
    by (auto simp: inc_A_def)
qed

section \<open>Updating and deleting incidents\<close>

text \<open>
  Claim C4: when \<^verbatim>\<open>updateIncident\<close> is called with an id that is in the collection, the
  collection keeps its length, every record with another id is the record it was, and
  on a record with that id \<^verbatim>\<open>updatedAt\<close> becomes the current time, each field the patch
  carries takes the patch's value and each field the patch does not carry keeps its
  value.
\<close>

theorem updateIncident_frame:
  assumes "ident \<in> id_i ` set prev"
  shows "length (updateIncident now ident patch prev) = length prev
    \<and> (\<exists>k < length prev. id_i (prev ! k) = ident)
    \<and> (\<forall>k < length prev.
          (id_i (prev ! k) \<noteq> ident \<longrightarrow> updateIncident now ident patch prev ! k = prev ! k)
        \<and> (id_i (prev ! k) = ident \<longrightarrow>
             updatedAt (updateIncident now ident patch prev ! k) = now
           \<and> id_i (updateIncident now ident patch prev ! k)
               = (case p_id patch of None \<Rightarrow> id_i (prev ! k) | Some v \<Rightarrow> v)
           \<and> title (updateIncident now ident patch prev ! k)
               = (case p_title patch of None \<Rightarrow> title (prev ! k) | Some v \<Rightarrow> v)
           \<and> description (updateIncident now ident patch prev ! k)
               = (case p_description patch of None \<Rightarrow> description (prev ! k) | Some v \<Rightarrow> v)
           \<and> category (updateIncident now ident patch prev ! k)
               = (case p_category patch of None \<Rightarrow> category (prev ! k) | Some v \<Rightarrow> v)
           \<and> server (updateIncident now ident patch prev ! k)
               = (case p_server patch of None \<Rightarrow> server (prev ! k) | Some v \<Rightarrow> v)
           \<and> priority (updateIncident now ident patch prev ! k)
               = (case p_priority patch of None \<Rightarrow> priority (prev ! k) | Some v \<Rightarrow> v)
           \<and> status (updateIncident now ident patch prev ! k)
               = (case p_status patch of None \<Rightarrow> status (prev ! k) | Some v \<Rightarrow> v)
           \<and> reporter (updateIncident now ident patch prev ! k)
               = (case p_reporter patch of None \<Rightarrow> reporter (prev ! k) | Some v \<Rightarrow> v)
           \<and> attachments (updateIncident now ident patch prev ! k)
               = (case p_attachments patch of None \<Rightarrow> attachments (prev ! k) | Some v \<Rightarrow> v)
           \<and> createdAt (updateIncident now ident patch prev ! k)
               = (case p_createdAt patch of None \<Rightarrow> createdAt (prev ! k) | Some v \<Rightarrow> v)))"
proof -
  have "\<exists>k < length prev. id_i (prev ! k) = ident"
    using assms by (auto simp: in_set_conv_nth)
  moreover have "length (updateIncident now ident patch prev) = length prev"
    by (simp add: updateIncident_def)
  moreover have "updateIncident now ident patch prev ! k
      = (if id_i (prev ! k) = ident then spread_patch (prev ! k) patch now else prev ! k)"
    if "k < length prev" for k
    using that by (simp add: updateIncident_def)
  ultimately show ?thesis
    by (simp add: spread_patch_def)
qed

theorem updateIncident_frame_witness:
  "id_i inc_B \<in> id_i ` set [inc_A, inc_B, inc_C]
   \<and> updateIncident ''2024-05-01T10:00:00.000Z'' (id_i inc_B) (patch_status Resuelta)
        [inc_A, inc_B, inc_C] ! 0 = inc_A
   \<and> status (updateIncident ''2024-05-01T10:00:00.000Z'' (id_i inc_B) (patch_status Resuelta)
        [inc_A, inc_B, inc_C] ! 1) = Resuelta
   \<and> title (updateIncident ''2024-05-01T10:00:00.000Z'' (id_i inc_B) (patch_status Resuelta)
        [inc_A, inc_B, inc_C] ! 1) = title inc_B
   \<and> updatedAt (updateIncident ''2024-05-01T10:00:00.000Z'' (id_i inc_B) (patch_status Resuelta)
        [inc_A, inc_B, inc_C] ! 1) = ''2024-05-01T10:00:00.000Z''"
proof -
  have h: "id_i inc_B \<in> id_i ` set [inc_A, inc_B, inc_C]"
    by simp
  have d: "id_i inc_A \<noteq> id_i inc_B"
    by (simp add: inc_A_def inc_B_def)
  have p: "p_status (patch_status Resuelta) = Some Resuelta" "p_title (patch_status Resuelta) = None"
    by (simp_all add: patch_status_def patch_empty_def)
  note f = updateIncident_frame
    [OF h, of "''2024-05-01T10:00:00.000Z''" "patch_status Resuelta"]
  from f have f0: "\<forall>k < length [inc_A, inc_B, inc_C].
      (id_i ([inc_A, inc_B, inc_C] ! k) \<noteq> id_i inc_B \<longrightarrow>
        updateIncident ''2024-05-01T10:00:00.000Z'' (id_i inc_B) (patch_status Resuelta)
          [inc_A, inc_B, inc_C] ! k = [inc_A, inc_B, inc_C] ! k)"
    by blast
  from f0 [rule_format, of 0] d have a: "updateIncident ''2024-05-01T10:00:00.000Z'' (id_i inc_B) (patch_status Resuelta)
        [inc_A, inc_B, inc_C] ! 0 = inc_A"
    by simp
  from f have f1: "\<forall>k < length [inc_A, inc_B, inc_C].
      (id_i ([inc_A, inc_B, inc_C] ! k) = id_i inc_B \<longrightarrow>
         updatedAt (updateIncident ''2024-05-01T10:00:00.000Z'' (id_i inc_B) (patch_status Resuelta)
          [inc_A, inc_B, inc_C] ! k) = ''2024-05-01T10:00:00.000Z''
       \<and> title (updateIncident ''2024-05-01T10:00:00.000Z'' (id_i inc_B) (patch_status Resuelta)
          [inc_A, inc_B, inc_C] ! k)
            = (case p_title (patch_status Resuelta) of None \<Rightarrow> title ([inc_A, inc_B, inc_C] ! k) | Some v \<Rightarrow> v)
       \<and> status (updateIncident ''2024-05-01T10:00:00.000Z'' (id_i inc_B) (patch_status Resuelta)
          [inc_A, inc_B, inc_C] ! k)
            = (case p_status (patch_status Resuelta) of None \<Rightarrow> status ([inc_A, inc_B, inc_C] ! k) | Some v \<Rightarrow> v))"
    by blast
  from f1 [rule_format, of 1] p have b: 
    "status (updateIncident ''2024-05-01T10:00:00.000Z'' (id_i inc_B) (patch_status Resuelta)
        [inc_A, inc_B, inc_C] ! 1) = Resuelta
   \<and> title (updateIncident ''2024-05-01T10:00:00.000Z'' (id_i inc_B) (patch_status Resuelta)
        [inc_A, inc_B, inc_C] ! 1) = title inc_B
   \<and> updatedAt (updateIncident ''2024-05-01T10:00:00.000Z'' (id_i inc_B) (patch_status Resuelta)
        [inc_A, inc_B, inc_C] ! 1) = ''2024-05-01T10:00:00.000Z''"
    by simp
  from h a b show ?thesis by blast
qed

text \<open>
  Claim C5, as the specification states it, has \<^verbatim>\<open>id\<close> and \<^verbatim>\<open>createdAt\<close> survive every
  \<^verbatim>\<open>updateIncident\<close> call whatever the patch. The patch type is \<^verbatim>\<open>Partial<Incident>\<close>, and
  the spread copies whatever it carries: a patch with an \<^verbatim>\<open>id\<close> renames the matched
  record, a patch with a \<^verbatim>\<open>createdAt\<close> moves its creation time.
\<close>

theorem updateIncident_id_createdAt_counterexample:
  "map id_i (updateIncident ''2024-05-01T10:00:00.000Z'' (id_i inc_A) (patch_id ''inc_zzzzzzz'') [inc_A])
     \<noteq> map id_i [inc_A]
   \<and> map createdAt (updateIncident ''2024-05-01T10:00:00.000Z'' (id_i inc_A)
        (patch_createdAt ''2024-05-01T10:00:00.000Z'') [inc_A])
     \<noteq> map createdAt [inc_A]"
  by (simp add: updateIncident_def spread_patch_def patch_id_def patch_createdAt_def
        patch_empty_def inc_A_def)

text \<open>
  Claim C5, amended: an \<^verbatim>\<open>updateIncident\<close> call whose patch carries no \<^verbatim>\<open>id\<close> leaves the id
  of every record in the collection as it was, and a call whose patch carries no
  \<^verbatim>\<open>createdAt\<close> leaves every \<^verbatim>\<open>createdAt\<close> as it was.
\<close>

theorem updateIncident_keeps_id_createdAt:
  "(p_id patch = None \<longrightarrow>
      map id_i (updateIncident now ident patch prev) = map id_i prev)
   \<and> (p_createdAt patch = None \<longrightarrow>
      map createdAt (updateIncident now ident patch prev) = map createdAt prev)"
  by (simp add: updateIncident_def spread_patch_def)

theorem updateIncident_keeps_id_createdAt_witness:
  "p_id (patch_status Resuelta) = None \<and> p_createdAt (patch_status Resuelta) = None
   \<and> map id_i (updateIncident ''2024-05-01T10:00:00.000Z'' (id_i inc_B) (patch_status Resuelta)
        [inc_A, inc_B]) = [id_i inc_A, id_i inc_B]
   \<and> map createdAt (updateIncident ''2024-05-01T10:00:00.000Z'' (id_i inc_B) (patch_status Resuelta)
        [inc_A, inc_B]) = [createdAt inc_A, createdAt inc_B]"
proof -
  have h: "p_id (patch_status Resuelta) = None" "p_createdAt (patch_status Resuelta) = None"
    by (simp_all add: patch_status_def patch_empty_def)
  show ?thesis
    using h updateIncident_keeps_id_createdAt
      [of "patch_status Resuelta" "''2024-05-01T10:00:00.000Z''" "id_i inc_B" "[inc_A, inc_B]"]
    by simp
qed

text \<open>
  Claim C6: \<^verbatim>\<open>updateIncident\<close> and \<^verbatim>\<open>deleteIncident\<close> called with an id that no record has
  give back the collection as it was; \<^verbatim>\<open>deleteIncident\<close> called with an id that exactly
  one record has gives a collection one shorter in which no record has that id, and
  deleting the same id again changes nothing.
\<close>

theorem unknown_id_noop_delete_once:
  "(ident \<notin> id_i ` set prev \<longrightarrow>
      updateIncident now ident patch prev = prev \<and> deleteIncident ident prev = prev)
   \<and> (length (filter (\<lambda>i. id_i i = ident) prev) = 1 \<longrightarrow>
      Suc (length (deleteIncident ident prev)) = length prev
      \<and> ident \<notin> id_i ` set (deleteIncident ident prev)
      \<and> deleteIncident ident (deleteIncident ident prev) = deleteIncident ident prev)"
proof -
  have upd: "updateIncident now ident patch prev = prev" if "ident \<notin> id_i ` set prev"
    using that by (induction prev) (auto simp: updateIncident_def)
  have del: "deleteIncident ident prev = prev" if "ident \<notin> id_i ` set prev"
    using that by (induction prev) (auto simp: deleteIncident_def)
  have len: "length (filter (\<lambda>i. id_i i = ident) prev) + length (deleteIncident ident prev)
      = length prev"
    unfolding deleteIncident_def by (induction prev) auto
  have gone: "ident \<notin> id_i ` set (deleteIncident ident prev)"
    by (auto simp: deleteIncident_def)
  have again: "deleteIncident ident (deleteIncident ident prev) = deleteIncident ident prev"
    by (simp add: deleteIncident_def)
  from upd del len gone again show ?thesis
    by auto
qed

theorem unknown_id_noop_delete_once_witness:
  "''inc_unknown'' \<notin> id_i ` set [inc_A, inc_B, inc_C]
   \<and> updateIncident ''2024-05-01T10:00:00.000Z'' ''inc_unknown'' (patch_status Cerrada)
        [inc_A, inc_B, inc_C] = [inc_A, inc_B, inc_C]
   \<and> deleteIncident ''inc_unknown'' [inc_A, inc_B, inc_C] = [inc_A, inc_B, inc_C]
   \<and> length (filter (\<lambda>i. id_i i = id_i inc_B) [inc_A, inc_B, inc_C]) = 1
   \<and> length (deleteIncident (id_i inc_B) [inc_A, inc_B, inc_C]) = 2
   \<and> id_i inc_B \<notin> id_i ` set (deleteIncident (id_i inc_B) [inc_A, inc_B, inc_C])
   \<and> deleteIncident (id_i inc_B) (deleteIncident (id_i inc_B) [inc_A, inc_B, inc_C])
       = deleteIncident (id_i inc_B) [inc_A, inc_B, inc_C]"
proof -
  have h1: "''inc_unknown'' \<notin> id_i ` set [inc_A, inc_B, inc_C]"
    by (simp add: inc_A_def inc_B_def inc_C_def)
  have h2: "length (filter (\<lambda>i. id_i i = id_i inc_B) [inc_A, inc_B, inc_C]) = 1"
    by (simp add: inc_A_def inc_B_def inc_C_def)
  show ?thesis
    using h1 h2
      unknown_id_noop_delete_once
        [of "''inc_unknown''" "[inc_A, inc_B, inc_C]" "''2024-05-01T10:00:00.000Z''"
            "patch_status Cerrada"]
      unknown_id_noop_delete_once
        [of "id_i inc_B" "[inc_A, inc_B, inc_C]" "''2024-05-01T10:00:00.000Z''"
            "patch_status Cerrada"]
    by simp
qed

section \<open>Creating content blocks\<close>

text \<open>
  Claim C9, as the specification states it, gives a block created without a title the
  title \<^verbatim>\<open>"Untitled block"\<close>. The default the source writes is \<^verbatim>\<open>"Nuevo bloque"\<close>.
\<close>

theorem upsertBlock_default_title_counterexample:
  "map title_b (upsertBlock ''2024-05-01T10:00:00.000Z'' ''k3j9x1a'' (Some block_empty) [])
     = [''Nuevo bloque'']
   \<and> ''Nuevo bloque'' \<noteq> ''Untitled block''"
  by (simp add: upsertBlock_def opt_field_def block_empty_def)

text \<open>
  Claim C9, amended: a call of \<^verbatim>\<open>upsertBlock\<close> that creates a block (no patch, or a patch
  without an id) and gives no title and no body (each absent or empty) puts in front
  of the collection a block with the title \<^verbatim>\<open>"Nuevo bloque"\<close>, the body
  \<^verbatim>\<open>"Escribe contenido en **Markdown**."\<close>, \<^verbatim>\<open>updatedAt\<close> equal to the current time and
  the id generated for this call; the previous blocks follow in their order.
\<close>

theorem upsertBlock_creates_default_block:
  assumes "block = None \<or>
     (\<exists>b. block = Some b \<and> (b_id b = None \<or> b_id b = Some [])
         \<and> (b_title b = None \<or> b_title b = Some [])
         \<and> (b_body b = None \<or> b_body b = Some []))"
  shows "upsertBlock now rnd block p =
     \<lparr>id_b = uid ''blk'' rnd, title_b = ''Nuevo bloque'',
      body = ''Escribe contenido en **Markdown**.'', updatedAt_b = now\<rparr> # p"
  using assms by (auto simp: upsertBlock_def opt_field_def)

theorem upsertBlock_creates_default_block_witness:
  "b_id block_empty = None \<and> b_title block_empty = None \<and> b_body block_empty = None
   \<and> upsertBlock ''2024-05-01T10:00:00.000Z'' ''k3j9x1a'' (Some block_empty) []
       = [\<lparr>id_b = ''blk_k3j9x1a'', title_b = ''Nuevo bloque'',
           body = ''Escribe contenido en **Markdown**.'',
           updatedAt_b = ''2024-05-01T10:00:00.000Z''\<rparr>]"
proof -
  have h: "b_id block_empty = None" "b_title block_empty = None" "b_body block_empty = None"
    by (simp_all add: block_empty_def)
  then have a: "Some block_empty = None \<or>
     (\<exists>b. Some block_empty = Some b \<and> (b_id b = None \<or> b_id b = Some [])
         \<and> (b_title b = None \<or> b_title b = Some [])
         \<and> (b_body b = None \<or> b_body b = Some []))"
    by simp
  show ?thesis
    using h upsertBlock_creates_default_block
      [OF a, of "''2024-05-01T10:00:00.000Z''" "''k3j9x1a''" "[]"]
    by (simp add: uid_def)
qed

section \<open>Persistence\<close>

text \<open>
  Claim C8: \<^verbatim>\<open>loadLS\<close> always returns a value and never passes an exception on.
  Whatever the storage holds under the key, the result is the fallback (storage
  refused, key missing, empty text, or text that \<^verbatim>\<open>JSON.parse\<close> rejects: the \<^verbatim>\<open>catch\<close>
  absorbs both exceptions) or the value \<^verbatim>\<open>JSON.parse\<close> returned; at initialisation the
  fallbacks are the empty collection for incidents and content blocks and
  \<^verbatim>\<open>DEFAULT_SETTINGS\<close> for the settings.
\<close>

theorem loadLS_value_or_fallback:
  "(loadLS parse ls key fallback = fallback
      \<or> (\<exists>raw. getItem ls key = Inr (Some raw) \<and> raw \<noteq> []
            \<and> parse raw = Inr (loadLS parse ls key fallback)))
   \<and> (\<forall>e. getItem ls key = Inl e \<longrightarrow> loadLS parse ls key fallback = fallback)
   \<and> (getItem ls key = Inr None \<longrightarrow> loadLS parse ls key fallback = fallback)
   \<and> (getItem ls key = Inr (Some []) \<longrightarrow> loadLS parse ls key fallback = fallback)
   \<and> (\<forall>raw e. getItem ls key = Inr (Some raw) \<and> parse raw = Inl e \<longrightarrow>
         loadLS parse ls key fallback = fallback)
   \<and> (\<forall>raw v. getItem ls key = Inr (Some raw) \<and> raw \<noteq> [] \<and> parse raw = Inr v \<longrightarrow>
         loadLS parse ls key fallback = v)
   \<and> (\<forall>e. loadLS_try parse ls key fallback = Inl e \<longrightarrow>
         loadLS parse ls key fallback = fallback)
   \<and> s_incidents (init_Store parse_i parse_b parse_s ls)
        = loadLS parse_i ls LS_KEYS_incidents []
   \<and> s_contentBlocks (init_Store parse_i parse_b parse_s ls)
        = loadLS parse_b ls LS_KEYS_contentBlocks []
   \<and> s_settings (init_Store parse_i parse_b parse_s ls)
        = loadLS parse_s ls LS_KEYS_settings DEFAULT_SETTINGS"
  by (auto simp: loadLS_def loadLS_try_def init_Store_def split: option.splits sum.splits)

theorem loadLS_value_or_fallback_witness:
  "getItem example_storage LS_KEYS_settings = Inr None
   \<and> getItem example_storage LS_KEYS_incidents = Inr (Some ''[{'')
   \<and> example_parse ''[{'' = (Inl SyntaxError :: error + Incident list)
   \<and> init_Store example_parse example_parse example_parse_settings example_storage
       = \<lparr>s_incidents = [], s_contentBlocks = [], s_settings = DEFAULT_SETTINGS\<rparr>
   \<and> getItem blocked_storage LS_KEYS_contentBlocks = Inl SecurityError
   \<and> loadLS example_parse blocked_storage LS_KEYS_contentBlocks [] = ([] :: ContentBlock list)"
proof -
  have k: "LS_KEYS_settings \<noteq> LS_KEYS_incidents" "LS_KEYS_settings \<noteq> LS_KEYS_contentBlocks"
    "LS_KEYS_incidents \<noteq> LS_KEYS_contentBlocks"
    by (simp_all add: LS_KEYS_settings_def LS_KEYS_incidents_def LS_KEYS_contentBlocks_def)
  have h1: "getItem example_storage LS_KEYS_settings = Inr None"
    using k by (simp add: getItem_def example_storage_def)
  have h2: "getItem example_storage LS_KEYS_incidents = Inr (Some ''[{'')"
    using k by (simp add: getItem_def example_storage_def)
  have h3: "example_parse ''[{'' = (Inl SyntaxError :: error + Incident list)"
    by (simp add: example_parse_def)
  have h4: "getItem example_storage LS_KEYS_contentBlocks = Inr (Some ''[]'')"
    using k by (simp add: getItem_def example_storage_def)
  have h5: "getItem blocked_storage LS_KEYS_contentBlocks = Inl SecurityError"
    by (simp add: getItem_def blocked_storage_def)
  have b: "loadLS example_parse example_storage LS_KEYS_contentBlocks ([] :: ContentBlock list) = []"
    using h4 by (simp add: loadLS_def loadLS_try_def example_parse_def)
  have i: "loadLS example_parse example_storage LS_KEYS_incidents ([] :: Incident list) = []"
    using h2 h3
      loadLS_value_or_fallback
        [of example_parse example_storage LS_KEYS_incidents "[] :: Incident list"]
    by blast
  have s: "loadLS example_parse_settings example_storage LS_KEYS_settings DEFAULT_SETTINGS
      = DEFAULT_SETTINGS"
    using h1
      loadLS_value_or_fallback
        [of example_parse_settings example_storage LS_KEYS_settings DEFAULT_SETTINGS]
    by blast
  have d: "loadLS example_parse blocked_storage LS_KEYS_contentBlocks [] = ([] :: ContentBlock list)"
    using h5
      loadLS_value_or_fallback
        [of example_parse blocked_storage LS_KEYS_contentBlocks "[] :: ContentBlock list"]
    by blast
  show ?thesis
    using h1 h2 h3 h5 b i s d by (simp add: init_Store_def)
qed

section \<open>The derived view\<close>

subsection \<open>The sort: a permutation\<close>

lemma run_tail_le: "run_tail c desc prev xs \<le> length xs"
  by (induction xs arbitrary: prev) (auto simp: Let_def)

lemma mset_take_drop: "mset (take k xs) + mset (drop k xs) = mset xs"
  by (metis append_take_drop_id mset_append)

lemma mset_CountAndMakeRun: "mset (snd (CountAndMakeRun c a)) = mset a"
proof (cases a)
  case Nil
  then show ?thesis by simp
next
  case (Cons x0 t)
  show ?thesis
  proof (cases t)
    case Nil
    with Cons show ?thesis by simp
  next
    case (Cons x1 rest)
    with \<open>a = x0 # t\<close> have a: "a = x0 # x1 # rest" by simp
    show ?thesis
      unfolding a by (simp add: Let_def mset_take_drop del: take_Suc_Cons drop_Suc_Cons)
  qed
qed

lemma mset_insert_at: "mset (take k pre @ pivot # drop k pre) = add_mset pivot (mset pre)"
  by (simp add: mset_take_drop)

lemma mset_BinaryInsertionSort: "mset (BinaryInsertionSort c pre rest) = mset pre + mset rest"
  by (induction rest arbitrary: pre) (simp_all add: Let_def mset_insert_at del: mset_append)

lemma mset_ArrayTimSortImpl: "mset (ArrayTimSortImpl c a) = mset a"
proof (cases "length a < 2")
  case True
  then show ?thesis by (simp add: ArrayTimSortImpl_def)
next
  case False
  obtain n b where r: "CountAndMakeRun c a = (n, b)" by (cases "CountAndMakeRun c a")
  have "mset b = mset a"
    using mset_CountAndMakeRun [of c a] r by simp
  moreover have "mset (take n b) + mset (drop n b) = mset b"
    by (rule mset_take_drop)
  ultimately show ?thesis
    using False r by (simp add: ArrayTimSortImpl_def mset_BinaryInsertionSort)
qed

lemma mset_array_sort: "mset (array_sort comparefn a) = mset a"
  by (simp add: array_sort_def mset_ArrayTimSortImpl)

lemma set_array_sort: "set (array_sort comparefn a) = set a"
  using mset_array_sort [of comparefn a] by (metis set_mset_mset)

subsection \<open>The sort: order and stability\<close>

text \<open>
  When the comparison function orders the elements by a key (it is negative exactly
  when its first argument has the greater key), the sorted array is non-increasing in
  the key and elements of equal key keep their order.
\<close>


lemma bsearch_spec:
  assumes "sorted_wrt (\<lambda>x y. key y \<le> (key x :: int)) a"
    and "\<forall>x \<in> set a. (c pivot x < 0) = (key x < key pivot)"
    and "left \<le> right" and "right \<le> length a"
    and "\<forall>x \<in> set (take left a). key pivot \<le> key x"
    and "\<forall>x \<in> set (drop right a). key x < key pivot"
  shows "bsearch c pivot a left right \<le> length a
    \<and> (\<forall>x \<in> set (take (bsearch c pivot a left right) a). key pivot \<le> key x)
    \<and> (\<forall>x \<in> set (drop (bsearch c pivot a left right) a). key x < key pivot)"
  using assms
proof (induction c pivot a left right rule: bsearch.induct)
  case (1 c pivot a left right)
  show ?case
  proof (cases "left < right")
    case False
    with "1.prems" have "left = right" by simp
    moreover from False have "bsearch c pivot a left right = left"
      by (subst bsearch.simps) simp
    ultimately show ?thesis
      using "1.prems" by simp
  next
    case True
    define mid where "mid = left + (right - left) div 2"
    have m: "left \<le> mid" "mid < right" "mid < length a"
      using True "1.prems"(4) by (auto simp: mid_def)
    have split: "a = take mid a @ a ! mid # drop (Suc mid) a"
      using m(3) by (simp add: id_take_nth_drop)
    have s: "sorted_wrt (\<lambda>x y. key y \<le> key x) (take mid a @ a ! mid # drop (Suc mid) a)"
      using "1.prems"(1) split by simp
    have before: "\<forall>x \<in> set (take mid a). key (a ! mid) \<le> key x"
      using s by (simp add: sorted_wrt_append)
    have after: "\<forall>x \<in> set (drop (Suc mid) a). key x \<le> key (a ! mid)"
      using s by (simp add: sorted_wrt_append)
    have el: "a ! mid \<in> set a"
      using m(3) by simp
    show ?thesis
    proof (cases "c pivot (a ! mid) < 0")
      case lt: True
      with "1.prems"(2) el have k: "key (a ! mid) < key pivot" by blast
      have "drop mid a = a ! mid # drop (Suc mid) a"
        using m(3) by (simp add: Cons_nth_drop_Suc)
      with k after have d: "\<forall>x \<in> set (drop mid a). key x < key pivot"
        by auto
      have "bsearch c pivot a left mid \<le> length a
        \<and> (\<forall>x \<in> set (take (bsearch c pivot a left mid) a). key pivot \<le> key x)
        \<and> (\<forall>x \<in> set (drop (bsearch c pivot a left mid) a). key x < key pivot)"
        using "1.IH"(1) [OF True mid_def lt "1.prems"(1,2) m(1) _ "1.prems"(5) d] m(3)
        by simp
      with True lt show ?thesis
        by (simp add: bsearch.simps [of c pivot a left right] mid_def [symmetric] Let_def)
    next
      case ge: False
      with "1.prems"(2) el have k: "key pivot \<le> key (a ! mid)" by auto
      have "take (Suc mid) a = take mid a @ [a ! mid]"
        using m(3) by (simp add: take_Suc_conv_app_nth)
      with k before have t: "\<forall>x \<in> set (take (mid + 1) a). key pivot \<le> key x"
        by auto
      have "bsearch c pivot a (mid + 1) right \<le> length a
        \<and> (\<forall>x \<in> set (take (bsearch c pivot a (mid + 1) right) a). key pivot \<le> key x)
        \<and> (\<forall>x \<in> set (drop (bsearch c pivot a (mid + 1) right) a). key x < key pivot)"
        using "1.IH"(2) [OF True mid_def ge "1.prems"(1,2) _ "1.prems"(4) t "1.prems"(6)] m(2)
        by simp
      with True ge show ?thesis
        by (simp add: bsearch.simps [of c pivot a left right] mid_def [symmetric] Let_def)
    qed
  qed
qed


lemma sorted_insert_at:
  assumes "sorted_wrt (\<lambda>x y. key y \<le> (key x :: int)) pre"
    and "\<forall>x \<in> set (take k pre). key pivot \<le> key x"
    and "\<forall>x \<in> set (drop k pre). key x < key pivot"
  shows "sorted_wrt (\<lambda>x y. key y \<le> key x) (take k pre @ pivot # drop k pre)"
proof -
  have "sorted_wrt (\<lambda>x y. key y \<le> key x) (take k pre @ drop k pre)"
    using assms(1) by simp
  then have "sorted_wrt (\<lambda>x y. key y \<le> key x) (take k pre)"
    and "sorted_wrt (\<lambda>x y. key y \<le> key x) (drop k pre)"
    and "\<forall>x \<in> set (take k pre). \<forall>y \<in> set (drop k pre). key y \<le> key x"
    unfolding sorted_wrt_append by blast+
  with assms(2,3) show ?thesis
    by (auto simp: sorted_wrt_append)
qed

lemma filter_take_drop: "filter P (take k xs) @ filter P (drop k xs) = filter P xs"
  by (metis append_take_drop_id filter_append)

lemma stable_insert_at:
  assumes "\<forall>x \<in> set (drop k pre). key x < (key pivot :: int)"
  shows "filter (\<lambda>z. key z = v) (take k pre @ pivot # drop k pre)
       = filter (\<lambda>z. key z = v) (pre @ [pivot])"
proof -
  have pre: "filter (\<lambda>z. key z = v) pre
      = filter (\<lambda>z. key z = v) (take k pre) @ filter (\<lambda>z. key z = v) (drop k pre)"
    by (metis append_take_drop_id filter_append)
  show ?thesis
  proof (cases "key pivot = v")
    case True
    with assms have "filter (\<lambda>z. key z = v) (drop k pre) = []"
      by (auto simp: filter_empty_conv)
    with pre show ?thesis by simp
  next
    case False
    with pre show ?thesis by simp
  qed
qed

lemma BinaryInsertionSort_spec:
  assumes "sorted_wrt (\<lambda>x y. key y \<le> (key x :: int)) pre"
    and "\<forall>x \<in> set pre \<union> set rest. \<forall>y \<in> set pre \<union> set rest. (c x y < 0) = (key y < key x)"
  shows "sorted_wrt (\<lambda>x y. key y \<le> key x) (BinaryInsertionSort c pre rest)
    \<and> filter (\<lambda>z. key z = v) (BinaryInsertionSort c pre rest)
        = filter (\<lambda>z. key z = v) (pre @ rest)"
  using assms
proof (induction rest arbitrary: pre)
  case Nil
  then show ?case by simp
next
  case (Cons pivot rest)
  define k where "k = bsearch c pivot pre 0 (length pre)"
  let ?pre' = "take k pre @ pivot # drop k pre"
  have cons: "\<forall>x \<in> set pre. (c pivot x < 0) = (key x < key pivot)"
    using Cons.prems(2) by simp
  have b: "k \<le> length pre \<and> (\<forall>x \<in> set (take k pre). key pivot \<le> key x)
      \<and> (\<forall>x \<in> set (drop k pre). key x < key pivot)"
    unfolding k_def
    using Cons.prems(1) cons
      bsearch_spec [where key = key and a = pre and c = c and pivot = pivot
        and left = 0 and right = "length pre"]
    by simp
  have s: "sorted_wrt (\<lambda>x y. key y \<le> key x) ?pre'"
    using Cons.prems(1) b by (simp add: sorted_insert_at)
  have f: "filter (\<lambda>z. key z = v) ?pre' = filter (\<lambda>z. key z = v) (pre @ [pivot])"
    using b by (intro stable_insert_at) blast
  have "set ?pre' = insert pivot (set pre)"
    using mset_insert_at [of k pre pivot] by (metis set_mset_add_mset_insert set_mset_mset)
  then have c': "\<forall>x \<in> set ?pre' \<union> set rest. \<forall>y \<in> set ?pre' \<union> set rest.
      (c x y < 0) = (key y < key x)"
    using Cons.prems(2) by simp
  have ih: "sorted_wrt (\<lambda>x y. key y \<le> key x) (BinaryInsertionSort c ?pre' rest)"
    "filter (\<lambda>z. key z = v) (BinaryInsertionSort c ?pre' rest)
       = filter (\<lambda>z. key z = v) (?pre' @ rest)"
    using Cons.IH [OF s c'] by blast+
  have "filter (\<lambda>z. key z = v) (?pre' @ rest)
      = filter (\<lambda>z. key z = v) ?pre' @ filter (\<lambda>z. key z = v) rest"
    by (simp only: filter_append)
  also have "\<dots> = filter (\<lambda>z. key z = v) (pre @ [pivot]) @ filter (\<lambda>z. key z = v) rest"
    by (simp only: f)
  also have "\<dots> = filter (\<lambda>z. key z = v) (pre @ pivot # rest)"
    by simp
  finally have "filter (\<lambda>z. key z = v) (BinaryInsertionSort c ?pre' rest)
      = filter (\<lambda>z. key z = v) (pre @ pivot # rest)"
    using ih(2) by simp
  moreover have "BinaryInsertionSort c pre (pivot # rest) = BinaryInsertionSort c ?pre' rest"
    by (simp add: Let_def k_def)
  ultimately show ?case
    using ih(1) by simp
qed

lemma run_tail_spec:
  assumes "\<forall>x \<in> insert prev (set xs). \<forall>y \<in> insert prev (set xs). (c x y < 0) = (key y < (key x :: int))"
  shows "(desc \<longrightarrow> sorted_wrt (\<lambda>x y. key x < key y) (prev # take (run_tail c desc prev xs) xs))
    \<and> (\<not> desc \<longrightarrow> sorted_wrt (\<lambda>x y. key y \<le> key x) (prev # take (run_tail c desc prev xs) xs))"
  using assms
proof (induction xs arbitrary: prev)
  case Nil
  then show ?case by simp
next
  case (Cons x xs)
  have ih: "(desc \<longrightarrow> sorted_wrt (\<lambda>x y. key x < key y) (x # take (run_tail c desc x xs) xs))
    \<and> (\<not> desc \<longrightarrow> sorted_wrt (\<lambda>x y. key y \<le> key x) (x # take (run_tail c desc x xs) xs))"
    using Cons.prems by (intro Cons.IH) auto
  have k: "(c x prev < 0) = (key prev < key x)"
    using Cons.prems by simp
  show ?case
  proof (cases desc)
    case True
    show ?thesis
    proof (cases "c x prev \<ge> 0")
      case True
      with \<open>desc\<close> show ?thesis by simp
    next
      case False
      with k have "key prev < key x" by simp
      with ih \<open>desc\<close> False show ?thesis by (auto simp: Let_def)
    qed
  next
    case nd: False
    show ?thesis
    proof (cases "c x prev < 0")
      case True
      with nd show ?thesis by simp
    next
      case False
      with k have "key x \<le> key prev" by simp
      with ih nd False show ?thesis by (auto simp: Let_def)
    qed
  qed
qed

lemma filter_rev_strict:
  assumes "sorted_wrt (\<lambda>x y. key x < (key y :: int)) xs"
  shows "filter (\<lambda>z. key z = v) (rev xs) = filter (\<lambda>z. key z = v) xs"
proof -
  have "length (filter (\<lambda>z. key z = v) xs) \<le> 1"
    using assms
  proof (induction xs)
    case Nil
    then show ?case by simp
  next
    case (Cons x xs)
    show ?case
    proof (cases "key x = v")
      case True
      with Cons.prems have "filter (\<lambda>z. key z = v) xs = []"
        by (auto simp: filter_empty_conv)
      with True show ?thesis by simp
    next
      case False
      with Cons show ?thesis by simp
    qed
  qed
  then have "rev (filter (\<lambda>z. key z = v) xs) = filter (\<lambda>z. key z = v) xs"
    by (cases "filter (\<lambda>z. key z = v) xs") auto
  then show ?thesis by (simp add: rev_filter)
qed

lemma CountAndMakeRun_spec:
  assumes "\<forall>x \<in> set a. \<forall>y \<in> set a. (c x y < 0) = (key y < (key x :: int))"
    and "CountAndMakeRun c a = (n, b)"
  shows "sorted_wrt (\<lambda>x y. key y \<le> key x) (take n b)
    \<and> filter (\<lambda>z. key z = v) b = filter (\<lambda>z. key z = v) a"
proof (cases a)
  case Nil
  with assms(2) show ?thesis by auto
next
  case (Cons x0 t)
  show ?thesis
  proof (cases t)
    case Nil
    with Cons assms(2) show ?thesis by auto
  next
    case (Cons x1 rest)
    with \<open>a = x0 # t\<close> have a: "a = x0 # x1 # rest" by simp
    define desc where "desc = (c x1 x0 < 0)"
    define m where "m = run_tail c desc x1 rest"
    have n: "n = 2 + m" and b: "b = (if desc then rev (take n a) @ drop n a else a)"
      using assms(2) unfolding a by (auto simp: Let_def desc_def m_def)
    have tk: "take n a = x0 # x1 # take m rest"
      by (simp add: n a)
    have k0: "desc = (key x0 < key x1)"
      using assms(1) by (simp add: desc_def a)
    have rt: "(desc \<longrightarrow> sorted_wrt (\<lambda>x y. key x < key y) (x1 # take m rest))
      \<and> (\<not> desc \<longrightarrow> sorted_wrt (\<lambda>x y. key y \<le> key x) (x1 # take m rest))"
      unfolding m_def using assms(1) by (intro run_tail_spec) (auto simp: a)
    show ?thesis
    proof (cases desc)
      case True
      with rt k0 have up: "sorted_wrt (\<lambda>x y. key x < key y) (take n a)"
        unfolding tk by auto
      then have "sorted_wrt (\<lambda>x y. key y < key x) (rev (take n a))"
        by (simp add: sorted_wrt_rev)
      then have "sorted_wrt (\<lambda>x y. key y \<le> key x) (rev (take n a))"
        by (rule sorted_wrt_mono_rel [rotated]) simp
      moreover have "length (rev (take n a)) = n"
        using run_tail_le [of c desc x1 rest] by (simp add: n a m_def)
      then have "take n b = rev (take n a)"
        using True b by simp
      moreover have "filter (\<lambda>z. key z = v) b = filter (\<lambda>z. key z = v) a"
        using True b filter_rev_strict [OF up, of v] by (simp add: filter_take_drop)
      ultimately show ?thesis by simp
    next
      case False
      with rt k0 have "sorted_wrt (\<lambda>x y. key y \<le> key x) (take n a)"
        unfolding tk by auto
      with False b show ?thesis by simp
    qed
  qed
qed

lemma ArrayTimSortImpl_spec:
  assumes "\<forall>x \<in> set a. \<forall>y \<in> set a. (c x y < 0) = (key y < (key x :: int))"
  shows "sorted_wrt (\<lambda>x y. key y \<le> key x) (ArrayTimSortImpl c a)
    \<and> filter (\<lambda>z. key z = v) (ArrayTimSortImpl c a) = filter (\<lambda>z. key z = v) a"
proof (cases "length a < 2")
  case True
  then have "a = [] \<or> (\<exists>x. a = [x])"
    by (cases a) (auto simp: length_Suc_conv)
  with True show ?thesis by (auto simp: ArrayTimSortImpl_def)
next
  case False
  obtain n b where r: "CountAndMakeRun c a = (n, b)" by (cases "CountAndMakeRun c a")
  have run: "sorted_wrt (\<lambda>x y. key y \<le> key x) (take n b)"
    and fb: "filter (\<lambda>z. key z = v) b = filter (\<lambda>z. key z = v) a"
    using CountAndMakeRun_spec [OF assms r, of v] by simp_all
  have "set b = set a"
    using mset_CountAndMakeRun [of c a] r by (metis set_mset_mset snd_conv)
  moreover have "set (take n b) \<union> set (drop n b) = set b"
    by (metis append_take_drop_id set_append)
  ultimately have c': "\<forall>x \<in> set (take n b) \<union> set (drop n b).
      \<forall>y \<in> set (take n b) \<union> set (drop n b). (c x y < 0) = (key y < key x)"
    using assms by simp
  from BinaryInsertionSort_spec [OF run c', of v] fb False r show ?thesis
    by (simp add: ArrayTimSortImpl_def)
qed

lemma sorted_array_sort:
  assumes "\<forall>x \<in> set a. \<forall>y \<in> set a. (SortCompare comparefn x y < 0) = (key y < (key x :: int))"
  shows "sorted_wrt (\<lambda>x y. key y \<le> key x) (array_sort comparefn a)"
  using ArrayTimSortImpl_spec [OF assms] by (simp add: array_sort_def)

lemma stable_array_sort:
  assumes "\<forall>x \<in> set a. \<forall>y \<in> set a. (SortCompare comparefn x y < 0) = (key y < (key x :: int))"
  shows "filter (\<lambda>z. key z = v) (array_sort comparefn a) = filter (\<lambda>z. key z = v) a"
  using ArrayTimSortImpl_spec [OF assms] by (simp add: array_sort_def)

subsection \<open>Ranks\<close>

lemma indexOf_from_absent: "p \<notin> set xs \<Longrightarrow> indexOf_from k xs p = - 1"
  by (induction xs arbitrary: k) auto

lemma indexOf_from_present:
  "p \<in> set xs \<Longrightarrow>
     \<exists>j < length xs. indexOf_from k xs p = int (k + j) \<and> xs ! j = p \<and> p \<notin> set (take j xs)"
proof (induction xs arbitrary: k)
  case Nil
  then show ?case by simp
next
  case (Cons x xs)
  show ?case
  proof (cases "x = p")
    case True
    then show ?thesis by auto
  next
    case False
    with Cons.prems have "p \<in> set xs" by simp
    from Cons.IH [OF this, of "Suc k"] obtain j where
      j: "j < length xs" "indexOf_from (Suc k) xs p = int (Suc k + j)" "xs ! j = p"
        "p \<notin> set (take j xs)"
      by blast
    with False show ?thesis
      by (intro exI [of _ "Suc j"]) simp
  qed
qed

lemma rank_absent: "p \<notin> set prios \<Longrightarrow> rank prios p = - 1"
  by (simp add: rank_def indexOf_def indexOf_from_absent)

lemma rank_present:
  assumes "p \<in> set prios"
  shows "0 \<le> rank prios p \<and> rank prios p < int (length prios) \<and> prios ! nat (rank prios p) = p"
  using indexOf_from_present [OF assms, of 0] by (auto simp: rank_def indexOf_def)

subsection \<open>The filters\<close>

lemma filter_stage_sublist: "\<exists>P. filter_stage L incidents q sf pf = filter P incidents"
proof -
  have one: "\<exists>P. (if c then filter Q xs else xs) = filter P xs" for c Q and xs :: "Incident list"
    by (cases c) (auto intro: exI [of _ "\<lambda>_. True"])
  obtain P1 where l1: "(if trim q \<noteq> [] then filter (text_match L (L q)) incidents
      else incidents) = filter P1 incidents"
    using one by blast
  obtain P2 where l2: "(case sf of Todos \<Rightarrow> filter P1 incidents
      | Only s \<Rightarrow> filter (\<lambda>i. status i = s) (filter P1 incidents)) = filter P2 incidents"
    by (cases sf) auto
  obtain P3 where l3: "(if pf \<noteq> js ''Todas'' then filter (\<lambda>i. priority i = pf) (filter P2 incidents)
      else filter P2 incidents) = filter P3 incidents"
    by (cases "pf \<noteq> js ''Todas''") auto
  show ?thesis
    unfolding filter_stage_def Let_def l1 l2 l3 by blast
qed

lemma filter_stage_all:
  "filter_stage L incidents q Todos (js ''Todas'')
     = (if trim q \<noteq> [] then filter (text_match L (L q)) incidents else incidents)"
  by (simp add: filter_stage_def)


lemma mset_sort_stage: "mset (sort_stage D sortBy prios list) = mset list"
  by (simp add: sort_stage_def mset_array_sort)



lemma trim_nonempty: "trim q \<noteq> [] \<Longrightarrow> q \<noteq> []"
  by (auto simp: trim_def)




subsection \<open>The sort stage\<close>

lemma cmp_prioridad_key:
  "(SortCompare (cmp_prioridad prios) a b < 0)
     = (rank prios (priority b) < rank prios (priority a))"
  by (simp add: SortCompare_def cmp_prioridad_def)

lemma cmp_fecha_key:
  assumes "D (createdAt a) \<noteq> None" and "D (createdAt b) \<noteq> None"
  shows "(SortCompare (cmp_fecha D) a b < 0) = (the (D (createdAt b)) < the (D (createdAt a)))"
  using assms by (auto simp: SortCompare_def cmp_fecha_def)

lemma sorted_fecha:
  assumes "\<forall>i \<in> set list. D (createdAt i) \<noteq> None"
  shows "sorted_wrt (\<lambda>a b. the (D (createdAt b)) \<le> the (D (createdAt a)))
           (sort_stage D fecha prios list)"
proof -
  have "\<forall>a \<in> set list. \<forall>b \<in> set list.
      (SortCompare (cmp_fecha D) a b < 0) = (the (D (createdAt b)) < the (D (createdAt a)))"
    using assms by (simp add: cmp_fecha_key)
  then show ?thesis
    unfolding sort_stage_def
    using sorted_array_sort [of list "cmp_fecha D" "\<lambda>i. the (D (createdAt i))"] by simp
qed

lemma stable_fecha:
  assumes "\<forall>i \<in> set list. D (createdAt i) \<noteq> None"
  shows "filter (\<lambda>i. D (createdAt i) = Some t) (sort_stage D fecha prios list)
       = filter (\<lambda>i. D (createdAt i) = Some t) list"
proof -
  have key: "\<forall>a \<in> set list. \<forall>b \<in> set list.
      (SortCompare (cmp_fecha D) a b < 0) = (the (D (createdAt b)) < the (D (createdAt a)))"
    using assms by (simp add: cmp_fecha_key)
  have eq: "(D (createdAt i) = Some t) = (the (D (createdAt i)) = t)" if "i \<in> set list" for i
    using that assms by auto
  have "filter (\<lambda>i. D (createdAt i) = Some t) (array_sort (cmp_fecha D) list)
      = filter (\<lambda>i. the (D (createdAt i)) = t) (array_sort (cmp_fecha D) list)"
    by (rule filter_cong) (simp_all add: set_array_sort eq)
  also have "\<dots> = filter (\<lambda>i. the (D (createdAt i)) = t) list"
    using key by (rule stable_array_sort)
  also have "\<dots> = filter (\<lambda>i. D (createdAt i) = Some t) list"
    by (rule filter_cong) (simp_all add: eq)
  finally show ?thesis by (simp add: sort_stage_def)
qed

lemma sorted_prioridad:
  "sorted_wrt (\<lambda>a b. rank prios (priority b) \<le> rank prios (priority a))
     (sort_stage D prioridad prios list)"
  unfolding sort_stage_def
  using sorted_array_sort [of list "cmp_prioridad prios" "\<lambda>i. rank prios (priority i)"]
  by (simp add: cmp_prioridad_key)

lemma stable_prioridad:
  "filter (\<lambda>i. rank prios (priority i) = k) (sort_stage D prioridad prios list)
     = filter (\<lambda>i. rank prios (priority i) = k) list"
  unfolding sort_stage_def
  using stable_array_sort [of list "cmp_prioridad prios" "\<lambda>i. rank prios (priority i)" k]
  by (simp add: cmp_prioridad_key)

lemma unranked_last:
  assumes "m < n" and "n < length (sort_stage D prioridad prios list)"
    and "priority (sort_stage D prioridad prios list ! m) \<notin> set prios"
  shows "priority (sort_stage D prioridad prios list ! n) \<notin> set prios"
proof
  let ?v = "sort_stage D prioridad prios list"
  assume "priority (?v ! n) \<in> set prios"
  then have "0 \<le> rank prios (priority (?v ! n))"
    by (simp add: rank_present)
  moreover have "rank prios (priority (?v ! m)) = - 1"
    using assms(3) by (rule rank_absent)
  moreover have "rank prios (priority (?v ! n)) \<le> rank prios (priority (?v ! m))"
    using sorted_prioridad [of prios D list] assms(1,2)
    by (simp add: sorted_wrt_iff_nth_less)
  ultimately show False by simp
qed

text \<open>
  With a \<^verbatim>\<open>createdAt\<close> that is not a date the comparison function answers NaN and is no
  consistent ordering; what the view then is depends on the engine. V8 turns A, B, the
  undated incident, C into C, B, A, the undated incident:
\<close>

lemma sort_by_date_engine_order:
  "filtered example_toLowerCase example_Date [inc_A, inc_B, inc_undated, inc_C] [] Todos
     (js ''Todas'') fecha (priorities DEFAULT_SETTINGS) = [inc_C, inc_B, inc_A, inc_undated]"
  by code_simp

text \<open>
  Claim C2, as the specification states it, has the view by date non-increasing in
  \<^verbatim>\<open>createdAt\<close> for every collection. \<^verbatim>\<open>createdAt\<close> is a string that nothing checks: after
  \<^verbatim>\<open>updateIncident\<close> with a patch whose \<^verbatim>\<open>createdAt\<close> is not a date (or after loading such a
  record from the storage), the view that V8 gives by date of the collection A, B, C is
  A, B, C, with A, created at 1 ms, in front of C, created at 3 ms.
\<close>

theorem sort_by_date_counterexample:
  "updateIncident ''2024-05-01T10:00:00.000Z'' (id_i inc_B) (patch_createdAt ''ayer'')
     [inc_A, inc_B, inc_C] = [inc_A, inc_undated, inc_C]
   \<and> example_Date (createdAt inc_A) = Some 1
   \<and> example_Date (createdAt inc_undated) = None
   \<and> example_Date (createdAt inc_C) = Some 3
   \<and> filtered example_toLowerCase example_Date [inc_A, inc_undated, inc_C] [] Todos
        (js ''Todas'') fecha (priorities DEFAULT_SETTINGS) = [inc_A, inc_undated, inc_C]"
  by code_simp

text \<open>
  Claim C2, amended: the view is the filtered list rearranged by the sort. Sorted by
  date (\<^verbatim>\<open>"fecha"\<close>), when every \<^verbatim>\<open>createdAt\<close> of the collection is a date, it is
  non-increasing in the time of creation and incidents created at the same time keep
  the order they had. Sorted by priority (\<^verbatim>\<open>"prioridad"\<close>), for every collection, it is
  non-increasing in the rank, the index of the priority label in the vocabulary, and
  incidents of equal rank keep the order they had; a label that is not in the
  vocabulary has rank \<open>-1\<close>, a label that is in it has its first index as rank, and
  after an incident with a label outside the vocabulary only such incidents follow.
  The filtered list itself is the collection in its order with some incidents left
  out. On the collection A, B, C of the scenario the view by date is C, B, A and the
  view by priority is C, A, B.
\<close>

theorem sort_stage_orders_view:
  "((\<forall>i \<in> set incidents. D (createdAt i) \<noteq> None) \<longrightarrow>
       sorted_wrt (\<lambda>a b. the (D (createdAt b)) \<le> the (D (createdAt a)))
         (filtered L D incidents q sf pf fecha prios)
     \<and> (\<forall>t. filter (\<lambda>i. D (createdAt i) = Some t) (filtered L D incidents q sf pf fecha prios)
            = filter (\<lambda>i. D (createdAt i) = Some t) (filter_stage L incidents q sf pf)))
   \<and> sorted_wrt (\<lambda>a b. rank prios (priority b) \<le> rank prios (priority a))
       (filtered L D incidents q sf pf prioridad prios)
   \<and> (\<forall>k. filter (\<lambda>i. rank prios (priority i) = k) (filtered L D incidents q sf pf prioridad prios)
          = filter (\<lambda>i. rank prios (priority i) = k) (filter_stage L incidents q sf pf))
   \<and> (\<forall>p. p \<notin> set prios \<longrightarrow> rank prios p = - 1)
   \<and> (\<forall>p. p \<in> set prios \<longrightarrow>
         0 \<le> rank prios p \<and> rank prios p < int (length prios) \<and> prios ! nat (rank prios p) = p)
   \<and> (\<forall>m n. m < n \<and> n < length (filtered L D incidents q sf pf prioridad prios)
         \<and> priority (filtered L D incidents q sf pf prioridad prios ! m) \<notin> set prios \<longrightarrow>
         priority (filtered L D incidents q sf pf prioridad prios ! n) \<notin> set prios)
   \<and> mset (filtered L D incidents q sf pf sortBy prios) = mset (filter_stage L incidents q sf pf)
   \<and> (\<exists>P. filter_stage L incidents q sf pf = filter P incidents)
   \<and> filtered L example_Date [inc_A, inc_B, inc_C] [] Todos (js ''Todas'') fecha
        [js ''Baja'', js ''Media'', js ''Alta'', js ''Cr'' @ [0xED] @ js ''tica'']
       = [inc_C, inc_B, inc_A]
   \<and> filtered L example_Date [inc_A, inc_B, inc_C] [] Todos (js ''Todas'') prioridad
        [js ''Baja'', js ''Media'', js ''Alta'', js ''Cr'' @ [0xED] @ js ''tica'']
       = [inc_C, inc_A, inc_B]"
proof -
  let ?list = "filter_stage L incidents q sf pf"
  have sub: "\<exists>P. ?list = filter P incidents"
    by (rule filter_stage_sublist)
  have dates: "\<forall>i \<in> set ?list. D (createdAt i) \<noteq> None"
    if "\<forall>i \<in> set incidents. D (createdAt i) \<noteq> None"
    using that sub by auto
  have c1: "sorted_wrt (\<lambda>a b. the (D (createdAt b)) \<le> the (D (createdAt a)))
      (filtered L D incidents q sf pf fecha prios)"
    if "\<forall>i \<in> set incidents. D (createdAt i) \<noteq> None"
    unfolding filtered_def using dates [OF that] by (rule sorted_fecha)
  have c2: "filter (\<lambda>i. D (createdAt i) = Some t) (filtered L D incidents q sf pf fecha prios)
      = filter (\<lambda>i. D (createdAt i) = Some t) ?list"
    if "\<forall>i \<in> set incidents. D (createdAt i) \<noteq> None" for t
    unfolding filtered_def using dates [OF that] by (rule stable_fecha)
  have c3: "sorted_wrt (\<lambda>a b. rank prios (priority b) \<le> rank prios (priority a))
      (filtered L D incidents q sf pf prioridad prios)"
    unfolding filtered_def by (rule sorted_prioridad)
  have c4: "filter (\<lambda>i. rank prios (priority i) = k) (filtered L D incidents q sf pf prioridad prios)
      = filter (\<lambda>i. rank prios (priority i) = k) ?list" for k
    unfolding filtered_def by (rule stable_prioridad)
  have c5: "\<forall>p. p \<notin> set prios \<longrightarrow> rank prios p = - 1"
    by (simp add: rank_absent)
  have c6: "\<forall>p. p \<in> set prios \<longrightarrow>
      0 \<le> rank prios p \<and> rank prios p < int (length prios) \<and> prios ! nat (rank prios p) = p"
    using rank_present by blast
  have c7: "\<forall>m n. m < n \<and> n < length (filtered L D incidents q sf pf prioridad prios)
      \<and> priority (filtered L D incidents q sf pf prioridad prios ! m) \<notin> set prios \<longrightarrow>
      priority (filtered L D incidents q sf pf prioridad prios ! n) \<notin> set prios"
    unfolding filtered_def using unranked_last by blast
  have c8: "mset (filtered L D incidents q sf pf sortBy prios) = mset ?list"
    by (simp add: filtered_def mset_sort_stage)
  have f0: "filter_stage L [inc_A, inc_B, inc_C] [] Todos (js ''Todas'') = [inc_A, inc_B, inc_C]"
    by (simp add: filter_stage_all trim_def)
  have c9: "sort_stage example_Date fecha
      [js ''Baja'', js ''Media'', js ''Alta'', js ''Cr'' @ [0xED] @ js ''tica'']
      [inc_A, inc_B, inc_C] = [inc_C, inc_B, inc_A]"
    by code_simp
  have c10: "sort_stage example_Date prioridad
      [js ''Baja'', js ''Media'', js ''Alta'', js ''Cr'' @ [0xED] @ js ''tica'']
      [inc_A, inc_B, inc_C] = [inc_C, inc_A, inc_B]"
    by code_simp
  from c1 c2 have cf: "(\<forall>i \<in> set incidents. D (createdAt i) \<noteq> None) \<longrightarrow>
       sorted_wrt (\<lambda>a b. the (D (createdAt b)) \<le> the (D (createdAt a)))
         (filtered L D incidents q sf pf fecha prios)
     \<and> (\<forall>t. filter (\<lambda>i. D (createdAt i) = Some t) (filtered L D incidents q sf pf fecha prios)
            = filter (\<lambda>i. D (createdAt i) = Some t) ?list)"
    by blast
  from c4 have c4': "\<forall>k. filter (\<lambda>i. rank prios (priority i) = k)
        (filtered L D incidents q sf pf prioridad prios)
      = filter (\<lambda>i. rank prios (priority i) = k) ?list"
    by blast
  have c9': "filtered L example_Date [inc_A, inc_B, inc_C] [] Todos (js ''Todas'') fecha
        [js ''Baja'', js ''Media'', js ''Alta'', js ''Cr'' @ [0xED] @ js ''tica'']
       = [inc_C, inc_B, inc_A]"
    by (simp only: filtered_def f0 c9)
  have c10': "filtered L example_Date [inc_A, inc_B, inc_C] [] Todos (js ''Todas'') prioridad
        [js ''Baja'', js ''Media'', js ''Alta'', js ''Cr'' @ [0xED] @ js ''tica'']
       = [inc_C, inc_A, inc_B]"
    by (simp only: filtered_def f0 c10)
  show ?thesis
    by (intro conjI cf c3 c4' c5 c6 c7 c8 sub c9' c10')
qed

theorem sort_stage_orders_view_witness:
  "example_Date (createdAt inc_X) = Some 2 \<and> example_Date (createdAt inc_A) = Some 1
   \<and> example_Date (createdAt inc_B) = Some 2 \<and> example_Date (createdAt inc_C) = Some 3
   \<and> sorted_wrt (\<lambda>a b. the (example_Date (createdAt b)) \<le> the (example_Date (createdAt a)))
        (filtered example_toLowerCase example_Date [inc_X, inc_A, inc_B, inc_C] [] Todos
           (js ''Todas'') fecha (priorities DEFAULT_SETTINGS))
   \<and> filtered example_toLowerCase example_Date [inc_X, inc_A, inc_B, inc_C] [] Todos
        (js ''Todas'') fecha (priorities DEFAULT_SETTINGS) = [inc_C, inc_X, inc_B, inc_A]
   \<and> priority inc_X \<notin> set (priorities DEFAULT_SETTINGS)
   \<and> rank (priorities DEFAULT_SETTINGS) (priority inc_X) = - 1
   \<and> priority inc_A \<in> set (priorities DEFAULT_SETTINGS)
   \<and> rank (priorities DEFAULT_SETTINGS) (priority inc_A) = 2
   \<and> filtered example_toLowerCase example_Date [inc_X, inc_A, inc_B, inc_C] [] Todos
        (js ''Todas'') prioridad (priorities DEFAULT_SETTINGS) = [inc_C, inc_A, inc_B, inc_X]"
proof -
  have d: "example_Date (createdAt inc_X) = Some 2" "example_Date (createdAt inc_A) = Some 1"
    "example_Date (createdAt inc_B) = Some 2" "example_Date (createdAt inc_C) = Some 3"
    by (simp_all add: example_Date_def inc_X_def inc_A_def inc_B_def inc_C_def)
  then have h: "\<forall>i \<in> set [inc_X, inc_A, inc_B, inc_C]. example_Date (createdAt i) \<noteq> None"
    by simp
  have x: "priority inc_X \<notin> set (priorities DEFAULT_SETTINGS)"
    by code_simp
  have a: "priority inc_A \<in> set (priorities DEFAULT_SETTINGS)"
    by code_simp
  have ra: "rank (priorities DEFAULT_SETTINGS) (priority inc_A) = 2"
    by code_simp
  have vf: "filtered example_toLowerCase example_Date [inc_X, inc_A, inc_B, inc_C] [] Todos
      (js ''Todas'') fecha (priorities DEFAULT_SETTINGS) = [inc_C, inc_X, inc_B, inc_A]"
    by code_simp
  have vp: "filtered example_toLowerCase example_Date [inc_X, inc_A, inc_B, inc_C] [] Todos
      (js ''Todas'') prioridad (priorities DEFAULT_SETTINGS) = [inc_C, inc_A, inc_B, inc_X]"
    by code_simp
  note t = sort_stage_orders_view
    [of "[inc_X, inc_A, inc_B, inc_C]" example_Date example_toLowerCase "[]" Todos
        "js ''Todas''" "priorities DEFAULT_SETTINGS" fecha]
  from t h have s: "sorted_wrt (\<lambda>a b. the (example_Date (createdAt b)) \<le> the (example_Date (createdAt a)))
      (filtered example_toLowerCase example_Date [inc_X, inc_A, inc_B, inc_C] [] Todos
        (js ''Todas'') fecha (priorities DEFAULT_SETTINGS))"
    by blast
  from t x have rx: "rank (priorities DEFAULT_SETTINGS) (priority inc_X) = - 1"
    by blast
  from d s vf x rx a ra vp show ?thesis
    by blast
qed

end
